theory Spec2Isabelle
  imports Complex_Main "HOL-Library.Sublist" "HOL-Library.Log_Nat"
begin

section \<open>Python strings\<close>

text \<open>
  A Python \<^verbatim>\<open>str\<close> is a sequence of Unicode code points, here a list of natural
  numbers. The literals of the program are ASCII; they are written as HOL strings and
  read through \<open>lit\<close>.
\<close>

type_synonym str = "nat list"

definition code :: "char \<Rightarrow> nat" where
  "code c = of_char c"

definition lit :: "string \<Rightarrow> str" where
  "lit s = map code s"

datatype py_error = StopIteration | ReError | LookupError

text \<open>The ASCII capital letters, small letters and digits.\<close>

definition is_upper :: "nat \<Rightarrow> bool" where
  "is_upper c = (65 \<le> c \<and> c \<le> 90)"

definition is_lower :: "nat \<Rightarrow> bool" where
  "is_lower c = (97 \<le> c \<and> c \<le> 122)"

definition is_digit :: "nat \<Rightarrow> bool" where
  "is_digit c = (48 \<le> c \<and> c \<le> 57)"

text \<open>
  Python's Unicode character database is not part of the program. What the program uses
  of it is a parameter \<open>U\<close> of the functions below:
  \<^item> \<open>str_lower U t\<close> is \<^verbatim>\<open>t.lower()\<close>, a function of the whole text (one code point
    may become several, and the Greek sigma depends on its place in the word);
  \<^item> \<open>isspace U c\<close> says whether \<^verbatim>\<open>str.split()\<close> takes the code point \<open>c\<close> for
    whitespace (\<^verbatim>\<open>str.isspace\<close>);
  \<^item> \<open>isword U c\<close> says whether \<open>c\<close> is a word character of \<^verbatim>\<open>re\<close> on \<^verbatim>\<open>str\<close>
    patterns, that is alphanumeric or the underscore (\<^verbatim>\<open>\w\<close>).
\<close>

record unicode =
  str_lower :: "str \<Rightarrow> str"
  isspace :: "nat \<Rightarrow> bool"
  isword :: "nat \<Rightarrow> bool"

text \<open>The database cut down to ASCII, with which the functions are run on ASCII text:
  there it agrees with Python's.\<close>

definition ascii_lower :: "nat \<Rightarrow> nat" where
  "ascii_lower c = (if is_upper c then c + 32 else c)"

definition ascii_db :: unicode where
  "ascii_db =
     \<lparr>str_lower = map ascii_lower,
      isspace = (\<lambda>c. (9 \<le> c \<and> c \<le> 13) \<or> (28 \<le> c \<and> c \<le> 32)),
      isword = (\<lambda>c. is_upper c \<or> is_lower c \<or> is_digit c \<or> c = 95)\<rparr>"

text \<open>\<^verbatim>\<open>text.lower()\<close>\<close>

definition lower :: "unicode \<Rightarrow> str \<Rightarrow> str" where
  "lower U text = str_lower U text"

text \<open>\<^verbatim>\<open>text.split()\<close>: the maximal runs of non-whitespace characters, in order.
  \<open>cur\<close> is the run being read.\<close>

fun split_from :: "unicode \<Rightarrow> str \<Rightarrow> str \<Rightarrow> str list" where
  "split_from U cur [] = (if cur = [] then [] else [cur])"
| "split_from U cur (c # cs) =
     (if isspace U c then (if cur = [] then split_from U [] cs else cur # split_from U [] cs)
      else split_from U (cur @ [c]) cs)"

definition split :: "unicode \<Rightarrow> str \<Rightarrow> str list" where
  "split U text = split_from U [] text"

text \<open>\<^verbatim>\<open>sep.join(parts)\<close>\<close>

fun join :: "str \<Rightarrow> str list \<Rightarrow> str" where
  "join sep [] = []"
| "join sep [p] = p"
| "join sep (p # q # ps) = p @ sep @ join sep (q # ps)"

text \<open>\<^verbatim>\<open>needle in hay\<close> on strings: \<open>needle\<close> occurs in \<open>hay\<close> as a contiguous
  piece.\<close>

definition str_in :: "str \<Rightarrow> str \<Rightarrow> bool" where
  "str_in needle hay = sublist needle hay"

section \<open>Python dictionaries\<close>

text \<open>An insertion-ordered dictionary is an association list with distinct keys.
  \<open>dict_upd f k d\<close> is \<^verbatim>\<open>d[k] = f(d.get(k))\<close>: an existing key keeps its place, a new
  key goes to the end.\<close>

fun dict_upd :: "('v option \<Rightarrow> 'v) \<Rightarrow> 'k \<Rightarrow> ('k \<times> 'v) list \<Rightarrow> ('k \<times> 'v) list" where
  "dict_upd f k [] = [(k, f None)]"
| "dict_upd f k ((k', v) # d) =
     (if k' = k then (k', f (Some v)) # d else (k', v) # dict_upd f k d)"

section \<open>The \<^verbatim>\<open>re\<close> module\<close>

text \<open>
  The part of Python's regular expressions that the program uses: a pattern is a sequence
  of items, each an atom with an optional repetition, an anchor or a word boundary.
  Matching is by backtracking, greedy repetitions first, as in \<^verbatim>\<open>re\<close>.
\<close>

datatype atom = Dot | Lit nat | Cls "(nat \<times> nat) list"

datatype elem = One atom | Opt atom | Rep nat atom | Bol | Eol | Wb

definition backslash :: char where
  "backslash = CHR 0x5C"

definition newline :: nat where
  "newline = 10"

definition is_alnum :: "nat \<Rightarrow> bool" where
  "is_alnum c = (is_upper c \<or> is_lower c \<or> is_digit c)"

text \<open>A repetition after an atom: \<^verbatim>\<open>*\<close>, \<^verbatim>\<open>+\<close>, \<^verbatim>\<open>?\<close> or \<^verbatim>\<open>{n,}\<close> with one digit.\<close>

definition parse_quant :: "atom \<Rightarrow> string \<Rightarrow> elem \<times> string" where
  "parse_quant a s =
     (case s of
        [] \<Rightarrow> (One a, s)
      | c # r \<Rightarrow>
          if c = CHR ''*'' then (Rep 0 a, r)
          else if c = CHR ''+'' then (Rep 1 a, r)
          else if c = CHR ''?'' then (Opt a, r)
          else if c = CHR ''{'' then
            (case r of
               d # c2 # c3 # r' \<Rightarrow>
                 if is_digit (code d) \<and> c2 = CHR '','' \<and> c3 = CHR ''}''
                 then (Rep (code d - 48) a, r') else (One a, s)
             | _ \<Rightarrow> (One a, s))
          else (One a, s))"

text \<open>The inside of a character class \<^verbatim>\<open>[x-y...]\<close>, after the opening bracket.\<close>

fun parse_class :: "string \<Rightarrow> ((nat \<times> nat) list \<times> string) option" where
  "parse_class [] = None"
| "parse_class (c # r) =
     (if c = CHR '']'' then Some ([], r)
      else (case r of
              d # hi # r' \<Rightarrow>
                if d = CHR ''-'' \<and> is_alnum (code c) \<and> is_alnum (code hi) then
                  (case parse_class r' of
                     None \<Rightarrow> None
                   | Some (rs, rest) \<Rightarrow> Some ((code c, code hi) # rs, rest))
                else None
            | _ \<Rightarrow> None))"

text \<open>\<^verbatim>\<open>re.compile\<close>: \<open>None\<close> stands for \<^verbatim>\<open>re.error\<close>, and for the syntax that is
  not modelled.\<close>

function parse :: "string \<Rightarrow> elem list option" where
  "parse [] = Some []"
| "parse (c # r) =
     (if c = CHR ''^'' then map_option (Cons Bol) (parse r)
      else if c = CHR ''$'' then map_option (Cons Eol) (parse r)
      else if c = backslash then
        (case r of
           [] \<Rightarrow> None
         | e # r' \<Rightarrow>
             if e = CHR ''b'' then map_option (Cons Wb) (parse r')
             else if is_alnum (code e) then None
             else (case parse_quant (Lit (code e)) r' of
                     (el, rest) \<Rightarrow> map_option (Cons el) (parse rest)))
      else if c = CHR ''.'' then
        (case parse_quant Dot r of (el, rest) \<Rightarrow> map_option (Cons el) (parse rest))
      else if c = CHR ''['' then
        (case parse_class r of
           None \<Rightarrow> None
         | Some (rs, r') \<Rightarrow>
             if rs = [] then None
             else (case parse_quant (Cls rs) r' of
                     (el, rest) \<Rightarrow> map_option (Cons el) (parse rest)))
      else if c \<in> set ''*+?{}()|]'' then None
      else (case parse_quant (Lit (code c)) r of (el, rest) \<Rightarrow> map_option (Cons el) (parse rest)))"
  by pat_completeness auto
termination
proof (relation "measure length")
  have q: "length rest \<le> length s" if "parse_quant a s = (el, rest)" for a s el rest
    using that by (auto simp: parse_quant_def split: list.splits if_splits)
  have k: "length rest \<le> length s" if "parse_class s = Some (rs, rest)" for s rs rest
    using that
  proof (induction s arbitrary: rs rest rule: parse_class.induct)
    case 1
    then show ?case by simp
  next
    case (2 c r)
    then show ?case
      by (fastforce split: if_splits list.splits option.splits)
  qed
  show "wf (measure length)" by simp
  show "(r, c # r) \<in> measure length" for c :: char and r by simp
  show "(r, c # r) \<in> measure length" for c :: char and r by simp
  show "(r', c # r) \<in> measure length" if "r = e # r'" for c e :: char and r r'
    using that by simp
  show "(rest, c # r) \<in> measure length"
    if "r = e # r'" "(el, rest) = parse_quant (Lit (code e)) r'" for c e r r' el rest
    using that q [of "Lit (code e)" r' el rest] by simp
  show "(rest, c # r) \<in> measure length"
    if "(el, rest) = parse_quant Dot r" for c r el rest
    using that q [of Dot r el rest] by simp
  show "(rest, c # r) \<in> measure length"
    if "parse_class r = Some x" "(rs, r') = x" "(el, rest) = parse_quant (Cls rs) r'"
    for c r x rs r' el rest
    using that q [of "Cls rs" r' el rest] k [of r rs r'] by simp
  show "(rest, c # r) \<in> measure length"
    if "(el, rest) = parse_quant (Lit (code c)) r" for c r el rest
    using that q [of "Lit (code c)" r el rest] by simp
qed

definition in_ranges :: "(nat \<times> nat) list \<Rightarrow> nat \<Rightarrow> bool" where
  "in_ranges rs c = list_ex (\<lambda>(lo, hi). lo \<le> c \<and> c \<le> hi) rs"

text \<open>
  With \<^verbatim>\<open>re.IGNORECASE\<close>, a code point is compared after folding. The patterns of the
  program are ASCII, and for an ASCII letter of a pattern the library accepts the two
  ASCII letters and, as it documents, four more code points: U+0130 and U+0131 for
  \<^verbatim>\<open>i\<close>, U+017F for \<^verbatim>\<open>s\<close>, U+212A for \<^verbatim>\<open>k\<close>.
\<close>

definition re_fold :: "nat \<Rightarrow> nat" where
  "re_fold c =
     (if is_upper c then c + 32
      else if c = 304 \<or> c = 305 then 105
      else if c = 383 then 115
      else if c = 8490 then 107
      else c)"

definition re_upper :: "nat \<Rightarrow> nat" where
  "re_upper c = (if is_lower c then c - 32 else c)"

text \<open>Whether an atom accepts a character; \<open>icase\<close> is the flag \<^verbatim>\<open>re.IGNORECASE\<close>. The dot
  accepts everything but a newline.\<close>

fun atom_ok :: "bool \<Rightarrow> atom \<Rightarrow> nat \<Rightarrow> bool" where
  "atom_ok icase Dot c = (c \<noteq> newline)"
| "atom_ok icase (Lit x) c = (if icase then re_fold c = re_fold x else c = x)"
| "atom_ok icase (Cls rs) c =
     (in_ranges rs c
      \<or> (icase \<and> (in_ranges rs (re_fold c) \<or> in_ranges rs (re_upper (re_fold c)))))"

text \<open>\<^verbatim>\<open>\b\<close>: exactly one of the code points before and after the position is a word
  character; \<open>prev\<close> is the code point before, \<open>None\<close> at the start of the text.\<close>

definition at_boundary :: "unicode \<Rightarrow> nat option \<Rightarrow> str \<Rightarrow> bool" where
  "at_boundary U prev s =
     ((case prev of None \<Rightarrow> False | Some p \<Rightarrow> isword U p)
      \<noteq> (case s of [] \<Rightarrow> False | c # _ \<Rightarrow> isword U c))"

text \<open>Matching a pattern at a position: the text from the position on is \<open>s\<close>, and the
  result is what remains of it after the first match in backtracking order.\<close>

fun rmatch ::
  "unicode \<Rightarrow> bool \<Rightarrow> elem list \<Rightarrow> nat option \<Rightarrow> str \<Rightarrow> str option" where
  "rmatch U icase [] prev s = Some s"
| "rmatch U icase (One a # r) prev s =
     (case s of
        [] \<Rightarrow> None
      | c # cs \<Rightarrow> if atom_ok icase a c then rmatch U icase r (Some c) cs else None)"
| "rmatch U icase (Opt a # r) prev s =
     (case s of
        [] \<Rightarrow> rmatch U icase r prev s
      | c # cs \<Rightarrow>
          if atom_ok icase a c then
            (case rmatch U icase r (Some c) cs of
               Some rest \<Rightarrow> Some rest
             | None \<Rightarrow> rmatch U icase r prev s)
          else rmatch U icase r prev s)"
| "rmatch U icase (Rep n a # r) prev s =
     (case s of
        [] \<Rightarrow> if n = 0 then rmatch U icase r prev s else None
      | c # cs \<Rightarrow>
          if atom_ok icase a c then
            (case rmatch U icase (Rep (n - 1) a # r) (Some c) cs of
               Some rest \<Rightarrow> Some rest
             | None \<Rightarrow> if n = 0 then rmatch U icase r prev s else None)
          else if n = 0 then rmatch U icase r prev s else None)"
| "rmatch U icase (Bol # r) prev s = (if prev = None then rmatch U icase r prev s else None)"
| "rmatch U icase (Eol # r) prev s =
     (if s = [] \<or> s = [newline] then rmatch U icase r prev s else None)"
| "rmatch U icase (Wb # r) prev s = (if at_boundary U prev s then rmatch U icase r prev s else None)"

text \<open>\<^verbatim>\<open>re.match(pattern, string, flags)\<close>, as a truth value.\<close>

definition re_match :: "unicode \<Rightarrow> string \<Rightarrow> str \<Rightarrow> bool \<Rightarrow> py_error + bool" where
  "re_match U pattern s icase =
     (case parse pattern of
        None \<Rightarrow> Inl ReError
      | Some r \<Rightarrow> Inr (rmatch U icase r None s \<noteq> None))"

text \<open>The scan of \<^verbatim>\<open>re.findall\<close>: the matches from left to right, each search starting
  where the match before ended.\<close>

function findall ::
  "unicode \<Rightarrow> bool \<Rightarrow> elem list \<Rightarrow> nat option \<Rightarrow> str \<Rightarrow> str list" where
  "findall U icase r prev s =
     (case rmatch U icase r prev s of
        None \<Rightarrow> (case s of [] \<Rightarrow> [] | c # cs \<Rightarrow> findall U icase r (Some c) cs)
      | Some rest \<Rightarrow>
          (let n = length s - length rest in
           if n = 0 then [] # (case s of [] \<Rightarrow> [] | c # cs \<Rightarrow> findall U icase r (Some c) cs)
           else take n s # findall U icase r (Some (last (take n s))) (drop n s)))"
  by pat_completeness auto
termination
  by (relation "measure (\<lambda>(U, icase, r, prev, s). length s)") auto

definition re_findall :: "unicode \<Rightarrow> string \<Rightarrow> str \<Rightarrow> py_error + str list" where
  "re_findall U pattern s =
     (case parse pattern of
        None \<Rightarrow> Inl ReError
      | Some r \<Rightarrow> Inr (findall U False r None s))"

section \<open>clean_text\<close>

definition clean_text :: "unicode \<Rightarrow> str \<Rightarrow> str" where
  "clean_text U text = join (lit '' '') (split U (lower U text))"

section \<open>The keyword dictionaries\<close>

text \<open>The dictionaries of the program are records; the three keys shared by every
  keyword dictionary form the base record. A found record of an exact match has no key
  \<^verbatim>\<open>matched_synonym\<close>, which is \<open>None\<close> here. The score is a Python float, given by
  its exact value, or the integer 0.\<close>

record kw_entry =
  keyword :: str
  category :: str
  synonyms :: "str list"

record kw_info = kw_entry +
  count :: int

record found_kw = kw_entry +
  match_type :: str
  matched_synonym :: "str option"

record match_state =
  found_keywords :: "found_kw list"
  missing_keywords :: "kw_entry list"
  exact_matches :: int
  synonym_matches :: int

record match_result = match_state +
  match_percentage :: rat
  total_keywords :: int

section \<open>get_synonyms\<close>

text \<open>
  WordNet is outside the program: \<open>wordnet word\<close> is what \<^verbatim>\<open>wordnet.synsets(word)\<close>
  gives, an exception or a list of synsets, and a synset is what its \<^verbatim>\<open>lemmas()\<close>
  give, an exception or the list of the lemma names. The set \<open>synonyms\<close> of the source
  is \<open>synonym_set\<close>, a list without repetitions, and \<open>set_iter\<close> is the order in which
  Python iterates over it.
\<close>

type_synonym synset = "py_error + str list"

type_synonym wordnet = "str \<Rightarrow> py_error + synset list"

text \<open>The class \<^verbatim>\<open>DummyWordnet\<close>.\<close>

definition DummyWordnet :: wordnet where
  "DummyWordnet word = Inr []"

text \<open>\<^verbatim>\<open>s.replace(old, new)\<close> for single characters\<close>

definition replace :: "nat \<Rightarrow> nat \<Rightarrow> str \<Rightarrow> str" where
  "replace old new s = map (\<lambda>c. if c = old then new else c) s"

definition set_add :: "'a \<Rightarrow> 'a list \<Rightarrow> 'a list" where
  "set_add x xs = (if x \<in> set xs then xs else xs @ [x])"

fun lemmas_loop :: "unicode \<Rightarrow> str \<Rightarrow> str list \<Rightarrow> str list \<Rightarrow> str list" where
  "lemmas_loop U word synonym_set [] = synonym_set"
| "lemmas_loop U word synonym_set (name # names) =
     (let synonym = replace (code CHR ''_'') (code CHR '' '') name in
      if synonym \<noteq> word \<and> length (split U synonym) = 1
      then lemmas_loop U word (set_add synonym synonym_set) names
      else lemmas_loop U word synonym_set names)"

fun synsets_loop :: "unicode \<Rightarrow> str \<Rightarrow> str list \<Rightarrow> synset list \<Rightarrow> py_error + str list" where
  "synsets_loop U word synonym_set [] = Inr synonym_set"
| "synsets_loop U word synonym_set (syn # syns) =
     (case syn of
        Inl e \<Rightarrow> Inl e
      | Inr names \<Rightarrow> synsets_loop U word (lemmas_loop U word synonym_set names) syns)"

definition get_synonyms :: "unicode \<Rightarrow> wordnet \<Rightarrow> (str list \<Rightarrow> str list) \<Rightarrow> str \<Rightarrow> str list" where
  "get_synonyms U wordnet set_iter word =
     (case wordnet word of
        Inl e \<Rightarrow> []
      | Inr syns \<Rightarrow>
          (case synsets_loop U word [] syns of
             Inl e \<Rightarrow> []
           | Inr synonym_set \<Rightarrow> take 3 (set_iter synonym_set)))"

section \<open>categorize_keyword\<close>

text \<open>The three pattern lists. A backslash cannot stand in a string literal, and the one
  of the first tools pattern is written \<open>backslash\<close>.\<close>

definition technical_patterns :: "string list" where
  "technical_patterns =
     [''.*programming.*'', ''.*development.*'', ''.*engineering.*'', ''.*coding.*'',
      ''.*algorithm.*'', ''.*data.*structure.*'', ''.*database.*'', ''.*sql.*'',
      ''.*python.*'', ''.*java.*'', ''.*javascript.*'', ''.*react.*'', ''.*node.*'',
      ''.*machine.learning.*'', ''.*ai.*'', ''.*cloud.*'', ''.*aws.*'', ''.*azure.*'',
      ''.*docker.*'', ''.*kubernetes.*'', ''.*devops.*'', ''.*api.*'', ''.*web.*'',
      ''.*mobile.*'', ''.*software.*'', ''.*system.*'', ''.*network.*'', ''.*security.*'']"

definition tools_patterns :: "string list" where
  "tools_patterns =
     [''^[a-z]+'' @ [backslash] @ ''+?$'', ''.*tool.*'', ''.*framework.*'', ''.*library.*'',
      ''.*platform.*'',
      ''.*git.*'', ''.*jenkins.*'', ''.*jira.*'', ''.*excel.*'', ''.*tableau.*'',
      ''.*photoshop.*'', ''.*figma.*'', ''.*word.*'', ''.*powerpoint.*'']"

definition soft_patterns :: "string list" where
  "soft_patterns =
     [''.*communication.*'', ''.*teamwork.*'', ''.*leadership.*'', ''.*problem.solving.*'',
      ''.*critical.thinking.*'', ''.*adaptability.*'', ''.*creativity.*'',
      ''.*time.management.*'',
      ''.*collaboration.*'', ''.*negotiation.*'', ''.*presentation.*'', ''.*analytical.*'',
      ''.*strategic.*'', ''.*innovative.*'', ''.*proactive.*'', ''.*organized.*'']"

text \<open>One of the three loops over a pattern list: whether some pattern of the list
  matches, tried in the order of the list.\<close>

fun any_match :: "unicode \<Rightarrow> string list \<Rightarrow> str \<Rightarrow> py_error + bool" where
  "any_match U [] kw = Inr False"
| "any_match U (pattern # patterns) kw =
     (case re_match U pattern kw True of
        Inl e \<Rightarrow> Inl e
      | Inr m \<Rightarrow> if m then Inr True else any_match U patterns kw)"

definition categorize_keyword :: "unicode \<Rightarrow> str \<Rightarrow> py_error + str" where
  "categorize_keyword U kw =
     (case any_match U technical_patterns kw of
        Inl e \<Rightarrow> Inl e
      | Inr t \<Rightarrow>
          if t then Inr (lit ''Technical Skills'')
          else (case any_match U tools_patterns kw of
                  Inl e \<Rightarrow> Inl e
                | Inr u \<Rightarrow>
                    if u then Inr (lit ''Tools & Technologies'')
                    else (case any_match U soft_patterns kw of
                            Inl e \<Rightarrow> Inl e
                          | Inr v \<Rightarrow>
                              if v then Inr (lit ''Soft Skills'') else Inr (lit ''Other Skills''))))"

section \<open>extract_keywords\<close>

text \<open>The set \<^verbatim>\<open>stop_words\<close>, with the two members that the source writes twice.\<close>

definition stop_words :: "str list" where
  "stop_words = map lit
     [''the'', ''and'', ''for'', ''are'', ''but'', ''not'', ''you'', ''all'', ''can'', ''your'',
      ''has'', ''had'',
      ''her'', ''his'', ''how'', ''out'', ''see'', ''now'', ''one'', ''may'', ''get'', ''its'',
      ''who'', ''than'',
      ''been'', ''any'', ''our'', ''from'', ''with'', ''this'', ''that'', ''have'', ''will'',
      ''would'', ''should'',
      ''could'', ''what'', ''when'', ''where'', ''which'', ''there'', ''their'', ''they'',
      ''them'', ''these'',
      ''those'', ''then'', ''than'', ''such'', ''some'', ''also'', ''more'', ''most'', ''just'',
      ''like'', ''only'',
      ''other'', ''about'', ''into'', ''over'', ''under'', ''after'', ''before'', ''between'',
      ''through'',
      ''during'', ''without'', ''being'', ''both'', ''each'', ''while'', ''until'', ''upon'',
      ''within'', ''using'',
      ''based'', ''including'', ''according'', ''following'', ''various'', ''including'',
      ''provide'', ''provided'']"

text \<open>\<^verbatim>\<open>Counter(words)\<close>: a dictionary from each word to the number of its occurrences,
  the keys in the order of their first occurrence.\<close>

definition Counter :: "str list \<Rightarrow> (str \<times> int) list" where
  "Counter ws =
     foldl (\<lambda>d w. dict_upd (\<lambda>old. (case old of None \<Rightarrow> 0 | Some c \<Rightarrow> c) + 1) w d) [] ws"

text \<open>\<^verbatim>\<open>counter[key]\<close>, which is 0 for a key that is absent\<close>

definition counter_get :: "(str \<times> int) list \<Rightarrow> str \<Rightarrow> int" where
  "counter_get d k = (case map_of d k of None \<Rightarrow> 0 | Some c \<Rightarrow> c)"

text \<open>\<^verbatim>\<open>counter.most_common(n)\<close>: the library documents it as
  \<^verbatim>\<open>sorted(items, key=itemgetter(1), reverse=True)[:n]\<close>, a stable sort.\<close>

definition most_common :: "nat \<Rightarrow> (str \<times> int) list \<Rightarrow> (str \<times> int) list" where
  "most_common n d = take n (sort_key (\<lambda>(w, c). - c) d)"

fun categorize_loop ::
  "unicode \<Rightarrow> wordnet \<Rightarrow> (str list \<Rightarrow> str list) \<Rightarrow> (str \<times> int) list \<Rightarrow> kw_info list
     \<Rightarrow> str list \<Rightarrow> py_error + kw_info list" where
  "categorize_loop U wordnet set_iter word_counter categorized_keywords [] =
     Inr categorized_keywords"
| "categorize_loop U wordnet set_iter word_counter categorized_keywords (kw # kws) =
     (case categorize_keyword U kw of
        Inl e \<Rightarrow> Inl e
      | Inr cat \<Rightarrow>
          categorize_loop U wordnet set_iter word_counter
            (categorized_keywords @
               [\<lparr>keyword = kw, category = cat,
                 synonyms = get_synonyms U wordnet set_iter kw,
                 count = counter_get word_counter kw\<rparr>]) kws)"

text \<open>The pattern of \<^verbatim>\<open>re.findall\<close> in the source: \<^verbatim>\<open>\b[a-zA-Z]{3,}\b\<close>.\<close>

definition word_pattern :: string where
  "word_pattern = [backslash] @ ''b[a-zA-Z]{3,}'' @ [backslash] @ ''b''"

definition extract_keywords ::
  "unicode \<Rightarrow> wordnet \<Rightarrow> (str list \<Rightarrow> str list) \<Rightarrow> str \<Rightarrow> py_error + kw_info list" where
  "extract_keywords U wordnet set_iter text =
     (let text = clean_text U text in
      case re_findall U word_pattern text of
        Inl e \<Rightarrow> Inl e
      | Inr words \<Rightarrow>
          (let filtered_words = filter (\<lambda>word. word \<notin> set stop_words) words;
               word_counter = Counter filtered_words;
               top_keywords = map fst (most_common 30 word_counter)
           in categorize_loop U wordnet set_iter word_counter [] top_keywords))"

section \<open>Python floats\<close>

text \<open>
  A Python float is an IEEE 754 double. A finite double is given by its exact value, a
  rational number, and every operation rounds the exact result to the nearest double,
  ties to the even significand, as the hardware does: \<open>fl x\<close> is the double nearest to
  \<open>x\<close>, with a significand of 53 bits in the binade \<open>binade x\<close> of \<open>x\<close>. The range of
  the exponent is not modelled: a list holds fewer than \<open>2 ^ 63\<close> entries, and with
  it the values of the program stay far from overflow and from the subnormal numbers.
\<close>

definition round_half_even :: "rat \<Rightarrow> int" where
  "round_half_even x =
     (let f = \<lfloor>x\<rfloor>; d = x - of_int f in
      if d < 1 / 2 then f else if 1 / 2 < d then f + 1 else if even f then f else f + 1)"

text \<open>The exponent \<open>e\<close> with \<open>2 ^ 52 \<le> \<bar>x\<bar> / 2 powi e < 2 ^ 53\<close>, for \<open>x \<noteq> 0\<close>: the bit
  lengths of numerator and denominator give it up to one.\<close>

definition binade :: "rat \<Rightarrow> int" where
  "binade x =
     (case quotient_of \<bar>x\<bar> of (p, q) \<Rightarrow>
        let e = bitlen p - bitlen q - 53 in
        if \<bar>x\<bar> / 2 powi e < 2 ^ 53 then e else e + 1)"

definition fl :: "rat \<Rightarrow> rat" where
  "fl x = (if x = 0 then 0
           else of_int (round_half_even (x / 2 powi binade x)) * 2 powi binade x)"

text \<open>\<^verbatim>\<open>float(n)\<close>, the conversion that an integer operand of a float operation
  undergoes, and the operations \<^verbatim>\<open>*\<close>, \<^verbatim>\<open>+\<close> and \<^verbatim>\<open>/\<close> on floats. The literal
  \<^verbatim>\<open>0.7\<close> is \<open>fl (7 / 10)\<close>, and \<^verbatim>\<open>1.0\<close> is \<open>1\<close>. The program divides by the
  number of keywords only, and only when it is positive.\<close>

definition float_of_int :: "int \<Rightarrow> rat" where
  "float_of_int n = fl (of_int n)"

definition fmul :: "rat \<Rightarrow> rat \<Rightarrow> rat" where
  "fmul a b = fl (a * b)"

definition fadd :: "rat \<Rightarrow> rat \<Rightarrow> rat" where
  "fadd a b = fl (a + b)"

definition fdiv :: "rat \<Rightarrow> rat \<Rightarrow> rat" where
  "fdiv a b = fl (a / b)"

section \<open>calculate_match\<close>

text \<open>One round of the loop over \<open>job_keywords\<close>. \<^verbatim>\<open>next(...)\<close> on an exhausted
  generator raises \<open>StopIteration\<close>.\<close>

definition match_step :: "str \<Rightarrow> match_state \<Rightarrow> kw_info \<Rightarrow> py_error + match_state" where
  "match_step resume_clean st kw =
     (let kwd = keyword kw; syns = synonyms kw; cat = category kw in
      if str_in kwd resume_clean then
        Inr (st\<lparr>found_keywords := found_keywords st @
                 [\<lparr>keyword = kwd, category = cat, synonyms = syns,
                   match_type = lit ''exact'', matched_synonym = None\<rparr>],
               exact_matches := exact_matches st + 1\<rparr>)
      else if list_ex (\<lambda>synonym. str_in synonym resume_clean) syns then
        (case find (\<lambda>synonym. str_in synonym resume_clean) syns of
           None \<Rightarrow> Inl StopIteration
         | Some matching_synonym \<Rightarrow>
             Inr (st\<lparr>found_keywords := found_keywords st @
                      [\<lparr>keyword = kwd, category = cat, synonyms = syns,
                        match_type = lit ''synonym'',
                        matched_synonym = Some matching_synonym\<rparr>],
                    synonym_matches := synonym_matches st + 1\<rparr>))
      else
        Inr (st\<lparr>missing_keywords := missing_keywords st @
                 [\<lparr>keyword = kwd, category = cat, synonyms = syns\<rparr>]\<rparr>))"

fun match_loop :: "str \<Rightarrow> match_state \<Rightarrow> kw_info list \<Rightarrow> py_error + match_state" where
  "match_loop resume_clean st [] = Inr st"
| "match_loop resume_clean st (kw # kws) =
     (case match_step resume_clean st kw of
        Inl e \<Rightarrow> Inl e
      | Inr st' \<Rightarrow> match_loop resume_clean st' kws)"

definition calculate_match :: "unicode \<Rightarrow> str \<Rightarrow> kw_info list \<Rightarrow> py_error + match_result" where
  "calculate_match U resume_text job_keywords =
     (let resume_clean = clean_text U resume_text in
      case match_loop resume_clean
             \<lparr>found_keywords = [], missing_keywords = [],
              exact_matches = 0, synonym_matches = 0\<rparr> job_keywords of
        Inl e \<Rightarrow> Inl e
      | Inr st \<Rightarrow>
          (let total = int (length job_keywords);
               percentage =
                 (if total > 0
                  then fmul (fdiv (fadd (fmul (float_of_int (exact_matches st)) 1)
                                        (fmul (float_of_int (synonym_matches st)) (fl (7 / 10))))
                                  (float_of_int total))
                            (float_of_int 100)
                  else 0)
           in Inr \<lparr>found_keywords = found_keywords st,
                   missing_keywords = missing_keywords st,
                   exact_matches = exact_matches st,
                   synonym_matches = synonym_matches st,
                   match_percentage = percentage,
                   total_keywords = total\<rparr>))"

section \<open>generate_improvement_suggestions\<close>

definition group_step ::
  "(str \<times> kw_entry list) list \<Rightarrow> kw_entry \<Rightarrow> (str \<times> kw_entry list) list" where
  "group_step missing_by_category kw =
     dict_upd (\<lambda>old. (case old of None \<Rightarrow> [] | Some kws \<Rightarrow> kws) @ [kw])
       (category kw) missing_by_category"

definition suggest_step :: "str list \<Rightarrow> str \<times> kw_entry list \<Rightarrow> str list" where
  "suggest_step suggestions item =
     (case item of (cat, keywords) \<Rightarrow>
        if cat = lit ''Technical Skills'' then
          (let tech_keywords = map keyword (take 3 keywords) in
           if tech_keywords \<noteq> [] then
             suggestions @ [(lit ''**Add technical skills**: Consider including '')
                            @ join (lit '', '') tech_keywords @ (lit '' in your skills section'')]
           else suggestions)
        else if cat = lit ''Tools & Technologies'' then
          (let tools = map keyword (take 3 keywords) in
           if tools \<noteq> [] then
             suggestions @ [(lit ''**Learn tools**: Gain experience with '')
                            @ join (lit '', '') tools @ (lit '' through online courses or projects'')]
           else suggestions)
        else if cat = lit ''Soft Skills'' then
          (let soft_skills = map keyword (take 2 keywords) in
           if soft_skills \<noteq> [] then
             suggestions @ [(lit ''**Highlight soft skills**: Add examples demonstrating '')
                            @ join (lit '', '') soft_skills @ (lit '' in your experience section'')]
           else suggestions)
        else suggestions)"

definition generate_improvement_suggestions :: "kw_entry list \<Rightarrow> found_kw list \<Rightarrow> str list" where
  "generate_improvement_suggestions missing found =
     (let missing_by_category = foldl group_step [] missing;
          suggestions = foldl suggest_step [] missing_by_category
      in if length missing > 10 then
           suggestions @ [(lit ''**Major revision needed**: Consider significantly restructuring your resume to better match the job requirements'')]
         else if length missing > 5 then
           suggestions @ [(lit ''**Moderate improvements**: Focus on adding the top missing keywords to your resume'')]
         else
           suggestions @ [(lit ''**Good match**: Minor tweaks suggested for optimal alignment'')])"

section \<open>Specification-level notions\<close>

text \<open>The status of one keyword against the cleaned resume text, in the words of the
  specification: an exact match when the keyword is a literal substring; else a synonym
  match, with the first synonym of the list that is one; else missing.\<close>

datatype status = ExactMatch | SynonymMatch str | Missing

definition spec_classify :: "str \<Rightarrow> 'a kw_entry_scheme \<Rightarrow> status" where
  "spec_classify resume_clean k =
     (if sublist (keyword k) resume_clean then ExactMatch
      else if \<exists>s \<in> set (synonyms k). sublist s resume_clean
        then SynonymMatch (hd (filter (\<lambda>s. sublist s resume_clean) (synonyms k)))
      else Missing)"

text \<open>The records that \<open>calculate_match\<close> writes for a keyword of each status.\<close>

definition entry_of :: "'a kw_entry_scheme \<Rightarrow> kw_entry" where
  "entry_of k = \<lparr>keyword = keyword k, category = category k, synonyms = synonyms k\<rparr>"

definition spec_found :: "str \<Rightarrow> 'a kw_entry_scheme \<Rightarrow> found_kw option" where
  "spec_found resume_clean k =
     (case spec_classify resume_clean k of
        ExactMatch \<Rightarrow>
          Some \<lparr>keyword = keyword k, category = category k, synonyms = synonyms k,
                match_type = lit ''exact'', matched_synonym = None\<rparr>
      | SynonymMatch s \<Rightarrow>
          Some \<lparr>keyword = keyword k, category = category k, synonyms = synonyms k,
                match_type = lit ''synonym'', matched_synonym = Some s\<rparr>
      | Missing \<Rightarrow> None)"

text \<open>The state of the loop of \<open>calculate_match\<close> after the keywords \<open>ks\<close>, when it
  was \<open>st\<close> before them.\<close>

definition tally :: "str \<Rightarrow> kw_info list \<Rightarrow> match_state \<Rightarrow> match_state" where
  "tally rc ks st =
     st\<lparr>found_keywords := found_keywords st @ List.map_filter (spec_found rc) ks,
        missing_keywords := missing_keywords st
           @ map entry_of (filter (\<lambda>k. spec_classify rc k = Missing) ks),
        exact_matches := exact_matches st
           + int (length (filter (\<lambda>k. spec_classify rc k = ExactMatch) ks)),
        synonym_matches := synonym_matches st
           + int (length (filter (\<lambda>k. \<exists>s. spec_classify rc k = SynonymMatch s) ks))\<rparr>"

text \<open>Two keyword dictionaries that differ in \<open>count\<close> at most.\<close>

definition same_entry :: "kw_info \<Rightarrow> kw_info \<Rightarrow> bool" where
  "same_entry k k' =
     (keyword k = keyword k' \<and> category k = category k' \<and> synonyms k = synonyms k')"

text \<open>A keyword list used to run the functions on concrete input.\<close>

definition example_keywords :: "kw_info list" where
  "example_keywords = [\<lparr>keyword = lit ''python'', category = lit ''Technical Skills'', synonyms = [], count = 2\<rparr>,
           \<lparr>keyword = lit ''programming'', category = lit ''Technical Skills'',
             synonyms = [(lit ''scheduling''), (lit ''coding'')], count = 1\<rparr>,
           \<lparr>keyword = lit ''teamwork'', category = lit ''Tools & Technologies'',
             synonyms = [(lit ''cooperation'')], count = 1\<rparr>]"

text \<open>The score in the words of the specification,
  \<^verbatim>\<open>(exact_count * 1.0 + synonym_count * 0.7) / total_keywords * 100\<close>, in the arithmetic
  of doubles.\<close>

definition weighted_score :: "int \<Rightarrow> int \<Rightarrow> int \<Rightarrow> rat" where
  "weighted_score exact_count synonym_count total_count =
     fmul (fdiv (fadd (fmul (float_of_int exact_count) 1)
                      (fmul (float_of_int synonym_count) (fl (7 / 10))))
                (float_of_int total_count))
          (float_of_int 100)"

text \<open>A keyword list with more entries than a double has exact integers:
  \<open>2 ^ 54 + 7 = 18014398509481991\<close> times a keyword that stands in the resume text
  \<^verbatim>\<open>python coding\<close>, then 3 times a keyword of which a synonym stands there.\<close>

definition long_keywords :: "kw_info list" where
  "long_keywords =
     replicate 18014398509481991
       \<lparr>keyword = lit ''python'', category = lit ''Technical Skills'', synonyms = [], count = 1\<rparr>
     @ replicate 3
       \<lparr>keyword = lit ''programming'', category = lit ''Technical Skills'',
         synonyms = [lit ''coding''], count = 1\<rparr>"

text \<open>The members of a list, each once, in the order of their first occurrence.\<close>

fun first_occurrences :: "'a list \<Rightarrow> 'a list" where
  "first_occurrences [] = []"
| "first_occurrences (x # xs) = x # filter (\<lambda>y. y \<noteq> x) (first_occurrences xs)"

text \<open>The suggestions in the words of the specification: one suggestion for each
  category among the missing keywords, in the order in which the categories first appear,
  then the severity suggestion.\<close>

definition major_revision :: str where
  "major_revision = (lit ''**Major revision needed**: Consider significantly restructuring your resume to better match the job requirements'')"

definition moderate_improvements :: str where
  "moderate_improvements = (lit ''**Moderate improvements**: Focus on adding the top missing keywords to your resume'')"

definition good_match :: str where
  "good_match = (lit ''**Good match**: Minor tweaks suggested for optimal alignment'')"

definition spec_severity :: "nat \<Rightarrow> str" where
  "spec_severity n =
     (if n > 10 then major_revision else if n > 5 then moderate_improvements else good_match)"

definition spec_category_suggestion :: "str \<Rightarrow> str list \<Rightarrow> str list" where
  "spec_category_suggestion cat kws =
     (if cat = lit ''Technical Skills'' then
        [(lit ''**Add technical skills**: Consider including '') @ join (lit '', '') (take 3 kws)
         @ (lit '' in your skills section'')]
      else if cat = lit ''Tools & Technologies'' then
        [(lit ''**Learn tools**: Gain experience with '') @ join (lit '', '') (take 3 kws)
         @ (lit '' through online courses or projects'')]
      else if cat = lit ''Soft Skills'' then
        [(lit ''**Highlight soft skills**: Add examples demonstrating '') @ join (lit '', '') (take 2 kws)
         @ (lit '' in your experience section'')]
      else [])"

definition spec_category_part :: "kw_entry list \<Rightarrow> str list" where
  "spec_category_part missing =
     concat (map (\<lambda>cat. spec_category_suggestion cat
                          (map keyword (filter (\<lambda>m. category m = cat) missing)))
                 (first_occurrences (map category missing)))"

text \<open>Missing keywords used to run \<open>generate_improvement_suggestions\<close> on concrete
  input.\<close>

definition missing_entry :: "str \<Rightarrow> str \<Rightarrow> kw_entry" where
  "missing_entry k c = \<lparr>keyword = k, category = c, synonyms = []\<rparr>"

definition example_missing :: "kw_entry list" where
  "example_missing =
     [missing_entry (lit ''teamwork'') (lit ''Soft Skills''), missing_entry (lit ''python'') (lit ''Technical Skills''),
      missing_entry (lit ''leadership'') (lit ''Soft Skills''), missing_entry (lit ''salary'') (lit ''Other Skills''),
      missing_entry (lit ''negotiation'') (lit ''Soft Skills''),
      missing_entry (lit ''excel'') (lit ''Tools & Technologies'')]"

text \<open>A WordNet used to run \<open>get_synonyms\<close> on concrete input: it knows one word,
  fails on the lemmas of another, and fails on the lookup of a third.\<close>

definition example_wordnet :: wordnet where
  "example_wordnet w =
     (if w = lit ''programming'' then
        Inr [Inr [(lit ''programming''), (lit ''programing''), (lit ''computer_programming'')],
             Inr [(lit ''scheduling''), (lit ''programming''), (lit ''programing''), (lit ''coding''), (lit ''planning'')]]
      else if w = lit ''api'' then Inr [Inr [(lit ''interface'')], Inl LookupError]
      else if w = lit ''sql'' then Inl LookupError
      else Inr [])"

text \<open>The notions in which the properties of \<open>extract_keywords\<close> are stated.\<close>

definition is_letter :: "nat \<Rightarrow> bool" where
  "is_letter c = (is_upper c \<or> is_lower c)"

text \<open>\<open>tok\<close> stands in \<open>text\<close> as a word: with no word character right before it and
  none right after it.\<close>

definition occurs_as_word :: "unicode \<Rightarrow> str \<Rightarrow> str \<Rightarrow> bool" where
  "occurs_as_word U tok text =
     (\<exists>pre post. text = pre @ tok @ post
        \<and> (pre = [] \<or> \<not> isword U (last pre)) \<and> (post = [] \<or> \<not> isword U (hd post)))"

text \<open>The code point before a position, given the text before it.\<close>

definition last_opt :: "'a list \<Rightarrow> 'a option" where
  "last_opt xs = (if xs = [] then None else Some (last xs))"

text \<open>The compiled form of \<open>word_pattern\<close>.\<close>

definition word_regex :: "elem list" where
  "word_regex = [Wb, Rep 3 (Cls [(97, 122), (65, 90)]), Wb]"

text \<open>The token stream of a job text, and what is left of it without the stop words.\<close>

definition job_words :: "unicode \<Rightarrow> str \<Rightarrow> str list" where
  "job_words U job_text =
     (case re_findall U word_pattern (clean_text U job_text) of Inl e \<Rightarrow> [] | Inr ws \<Rightarrow> ws)"

definition filtered_words :: "unicode \<Rightarrow> str \<Rightarrow> str list" where
  "filtered_words U job_text = filter (\<lambda>word. word \<notin> set stop_words) (job_words U job_text)"

text \<open>The place of the first occurrence of \<open>w\<close> in \<open>ws\<close>.\<close>

definition first_pos :: "'a list \<Rightarrow> 'a \<Rightarrow> nat" where
  "first_pos ws w = length (takeWhile (\<lambda>x. x \<noteq> w) ws)"

text \<open>The category of a keyword, as a string.\<close>

definition category_of :: "unicode \<Rightarrow> str \<Rightarrow> str" where
  "category_of U kw = (case categorize_keyword U kw of Inl e \<Rightarrow> [] | Inr cat \<Rightarrow> cat)"

section \<open>Properties of strings\<close>

lemma lit_eq_iff [simp]: "lit a = lit b \<longleftrightarrow> a = b"
  by (simp add: lit_def code_def inj_map_eq_map inj_on_def)

lemma lit_eq_Nil [simp]: "lit a = [] \<longleftrightarrow> a = []"
  by (simp add: lit_def)

lemma lit_Cons: "lit (c # s) = code c # lit s"
  by (simp add: lit_def)

lemma code_eq_iff: "code a = code b \<longleftrightarrow> a = b"
  by (simp add: code_def)

section \<open>Properties of dictionaries\<close>

lemma set_first_occurrences [simp]: "set (first_occurrences xs) = set xs"
  by (induction xs) auto

lemma distinct_first_occurrences [simp]: "distinct (first_occurrences xs)"
  by (induction xs) auto

lemma first_occurrences_snoc:
  "first_occurrences (xs @ [x]) =
     (if x \<in> set xs then first_occurrences xs else first_occurrences xs @ [x])"
  by (induction xs) auto

lemma dict_upd_map:
  "distinct cs \<Longrightarrow>
   dict_upd f k (map (\<lambda>c. (c, g c)) cs) =
     (if k \<in> set cs then map (\<lambda>c. (c, if c = k then f (Some (g k)) else g c)) cs
      else map (\<lambda>c. (c, g c)) cs @ [(k, f None)])"
  by (induction cs) auto

lemma foldl_dict_upd:
  "foldl (\<lambda>d x. dict_upd (\<lambda>old. g (case old of None \<Rightarrow> z | Some v \<Rightarrow> v) x) (key x) d) [] xs
   = map (\<lambda>k. (k, foldl g z (filter (\<lambda>x. key x = k) xs))) (first_occurrences (map key xs))"
proof (induction xs rule: rev_induct)
  case Nil
  show ?case by simp
next
  case (snoc x xs)
  show ?case
  proof (cases "key x \<in> set (map key xs)")
    case True
    then show ?thesis
      by (simp add: snoc.IH first_occurrences_snoc dict_upd_map)
  next
    case False
    then have "\<forall>y \<in> set xs. key y \<noteq> key x"
      by (metis imageI list.set_map)
    then have "filter (\<lambda>y. key y = key x) xs = []"
      by (simp add: filter_empty_conv)
    with False show ?thesis
      by (auto simp: snoc.IH first_occurrences_snoc dict_upd_map)
  qed
qed

lemma foldl_snoc_list: "foldl (\<lambda>l x. l @ [x]) acc ys = acc @ ys"
  by (induction ys arbitrary: acc) auto

section \<open>Properties of get_synonyms\<close>

lemma lemmas_loop_inv:
  assumes "distinct acc" "\<forall>s \<in> set acc. s \<noteq> word \<and> length (split U s) = 1"
  shows "distinct (lemmas_loop U word acc names)
       \<and> (\<forall>s \<in> set (lemmas_loop U word acc names). s \<noteq> word \<and> length (split U s) = 1)"
  using assms
proof (induction names arbitrary: acc)
  case Nil
  then show ?case by simp
next
  case (Cons name names)
  let ?s = "replace (code CHR ''_'') (code CHR '' '') name"
  show ?case
  proof (cases "?s \<noteq> word \<and> length (split U ?s) = 1")
    case True
    from Cons.prems True have "distinct (set_add ?s acc)"
      "\<forall>s \<in> set (set_add ?s acc). s \<noteq> word \<and> length (split U s) = 1"
      by (auto simp: set_add_def)
    from Cons.IH [OF this] True show ?thesis by (simp add: Let_def)
  next
    case False
    from Cons.IH [OF Cons.prems] False show ?thesis by (auto simp: Let_def)
  qed
qed

lemma synsets_loop_inv:
  assumes "synsets_loop U word acc syns = Inr r"
    "distinct acc" "\<forall>s \<in> set acc. s \<noteq> word \<and> length (split U s) = 1"
  shows "distinct r \<and> (\<forall>s \<in> set r. s \<noteq> word \<and> length (split U s) = 1)"
  using assms
proof (induction syns arbitrary: acc)
  case Nil
  then show ?case by simp
next
  case (Cons syn syns)
  then obtain names where syn: "syn = Inr names"
    by (cases syn) simp_all
  from Cons.prems(1) syn have "synsets_loop U word (lemmas_loop U word acc names) syns = Inr r"
    by simp
  moreover from lemmas_loop_inv [OF Cons.prems(2,3)]
  have "distinct (lemmas_loop U word acc names)"
    "\<forall>s \<in> set (lemmas_loop U word acc names). s \<noteq> word \<and> length (split U s) = 1"
    by simp_all
  ultimately show ?case by (rule Cons.IH)
qed

lemma synsets_loop_fails:
  "Inl e \<in> set syns \<Longrightarrow> \<exists>e'. synsets_loop U word acc syns = Inl e'"
proof (induction syns arbitrary: acc)
  case Nil
  then show ?case by simp
next
  case (Cons syn syns)
  then show ?case by (cases syn) auto
qed

text \<open>
  C6. \<open>get_synonyms\<close> returns at most 3 strings, all different, none of them the word
  itself and each of exactly one word. It returns a list on every input: when the lookup
  of the word raises, when the lemmas of a synset raise, and with \<open>DummyWordnet\<close> in the
  place of WordNet, the list is empty. The order in which Python iterates over the set of
  synonyms is a parameter, any enumeration of the set without repetition.
\<close>

theorem get_synonyms_safe:
  assumes "\<And>xs. distinct xs \<Longrightarrow> distinct (set_iter xs) \<and> set (set_iter xs) = set xs"
  shows "length (get_synonyms U wordnet set_iter word) \<le> 3
       \<and> distinct (get_synonyms U wordnet set_iter word)
       \<and> (\<forall>s \<in> set (get_synonyms U wordnet set_iter word). s \<noteq> word \<and> length (split U s) = 1)
       \<and> (\<forall>e. wordnet word = Inl e \<longrightarrow> get_synonyms U wordnet set_iter word = [])
       \<and> (\<forall>syns e. wordnet word = Inr syns \<and> Inl e \<in> set syns
             \<longrightarrow> get_synonyms U wordnet set_iter word = [])
       \<and> get_synonyms U DummyWordnet set_iter word = []"
proof -
  have len: "length (get_synonyms U wordnet set_iter word) \<le> 3"
    by (simp add: get_synonyms_def split: sum.splits)
  have good: "distinct (get_synonyms U wordnet set_iter word)
       \<and> (\<forall>s \<in> set (get_synonyms U wordnet set_iter word). s \<noteq> word \<and> length (split U s) = 1)"
  proof (cases "wordnet word")
    case (Inl e)
    then show ?thesis by (simp add: get_synonyms_def)
  next
    case (Inr syns)
    show ?thesis
    proof (cases "synsets_loop U word [] syns")
      case (Inl e)
      with Inr show ?thesis by (simp add: get_synonyms_def)
    next
      case r: (Inr r)
      from synsets_loop_inv [OF r]
      have d: "distinct r" and p: "\<forall>s \<in> set r. s \<noteq> word \<and> length (split U s) = 1"
        by simp_all
      from assms [OF d] have i: "distinct (set_iter r)" "set (set_iter r) = set r"
        by simp_all
      have "set (take 3 (set_iter r)) \<subseteq> set r"
        using i(2) set_take_subset [of 3 "set_iter r"] by simp
      with p i(1) Inr r show ?thesis
        by (auto simp: get_synonyms_def)
    qed
  qed
  have raise: "get_synonyms U wordnet set_iter word = []" if "wordnet word = Inl e" for e
    using that by (simp add: get_synonyms_def)
  have raise2: "get_synonyms U wordnet set_iter word = []"
    if "wordnet word = Inr syns" "Inl e \<in> set syns" for syns e
    using that synsets_loop_fails [OF that(2), of U word "[]"]
    by (auto simp: get_synonyms_def)
  have "distinct (set_iter []) \<and> set (set_iter []) = set []"
    by (rule assms) simp
  then have dummy: "get_synonyms U DummyWordnet set_iter word = []"
    by (simp add: get_synonyms_def DummyWordnet_def)
  from len good raise raise2 dummy show ?thesis by blast
qed

theorem get_synonyms_safe_witness:
  "get_synonyms ascii_db example_wordnet (\<lambda>xs. xs) (lit ''programming'')
     = [(lit ''programing''), (lit ''scheduling''), (lit ''coding'')]
   \<and> length (get_synonyms ascii_db example_wordnet (\<lambda>xs. xs) (lit ''programming'')) \<le> 3
   \<and> distinct (get_synonyms ascii_db example_wordnet (\<lambda>xs. xs) (lit ''programming''))
   \<and> example_wordnet (lit ''sql'') = Inl LookupError
   \<and> get_synonyms ascii_db example_wordnet (\<lambda>xs. xs) (lit ''sql'') = []
   \<and> example_wordnet (lit ''api'') = Inr [Inr [(lit ''interface'')], Inl LookupError]
   \<and> get_synonyms ascii_db example_wordnet (\<lambda>xs. xs) (lit ''api'') = []
   \<and> get_synonyms ascii_db DummyWordnet (\<lambda>xs. xs) (lit ''sql'') = []"
proof -
  have h: "distinct ((\<lambda>xs. xs) xs) \<and> set ((\<lambda>xs. xs) xs) = set xs"
    if "distinct xs" for xs :: "str list"
    using that by simp
  have e: "get_synonyms ascii_db example_wordnet (\<lambda>xs. xs) (lit ''programming'')
     = [(lit ''programing''), (lit ''scheduling''), (lit ''coding'')]"
    by code_simp
  have f: "example_wordnet (lit ''sql'') = Inl LookupError"
    by (simp add: example_wordnet_def)
  have g: "example_wordnet (lit ''api'') = Inr [Inr [(lit ''interface'')], Inl LookupError]"
    by (simp add: example_wordnet_def)
  from get_synonyms_safe [of "\<lambda>xs. xs" ascii_db example_wordnet "(lit ''programming'')", OF h]
  have a: "length (get_synonyms ascii_db example_wordnet (\<lambda>xs. xs) (lit ''programming'')) \<le> 3"
    "distinct (get_synonyms ascii_db example_wordnet (\<lambda>xs. xs) (lit ''programming''))"
    by simp_all
  from get_synonyms_safe [of "\<lambda>xs. xs" ascii_db example_wordnet "(lit ''sql'')", OF h] f
  have b: "get_synonyms ascii_db example_wordnet (\<lambda>xs. xs) (lit ''sql'') = []"
    "get_synonyms ascii_db DummyWordnet (\<lambda>xs. xs) (lit ''sql'') = []"
    by simp_all
  from get_synonyms_safe [of "\<lambda>xs. xs" ascii_db example_wordnet "(lit ''api'')", OF h] g
  have c: "get_synonyms ascii_db example_wordnet (\<lambda>xs. xs) (lit ''api'') = []"
    by auto
  from e a f b g c show ?thesis by simp
qed

section \<open>Properties of categorize_keyword\<close>

lemma letter_in_class:
  assumes "is_upper c \<or> is_lower c"
  shows "atom_ok True (Cls [(97, 122)]) c"
proof (cases "is_lower c")
  case True
  then show ?thesis by (simp add: in_ranges_def is_lower_def)
next
  case False
  with assms have u: "is_upper c" by simp
  then have "re_fold c = c + 32" by (simp add: re_fold_def)
  with u have "97 \<le> re_fold c \<and> re_fold c \<le> 122" by (simp add: is_upper_def)
  then show ?thesis by (simp add: in_ranges_def)
qed

lemma rmatch_letters:
  assumes "\<forall>c \<in> set w. is_upper c \<or> is_lower c" "n \<le> length w"
  shows "rmatch U True [Rep n (Cls [(97, 122)]), Opt (Lit 43), Eol] prev w \<noteq> None"
  using assms
proof (induction w arbitrary: n prev)
  case Nil
  then show ?case by simp
next
  case (Cons c w)
  from Cons.prems have ok: "atom_ok True (Cls [(97, 122)]) c"
    by (intro letter_in_class) simp
  from Cons.prems have "\<forall>c \<in> set w. is_upper c \<or> is_lower c" "n - 1 \<le> length w"
    by auto
  from Cons.IH [OF this]
  obtain rest where "rmatch U True [Rep (n - 1) (Cls [(97, 122)]), Opt (Lit 43), Eol]
      (Some c) w = Some rest"
    by blast
  with ok show ?case by (simp del: atom_ok.simps)
qed

lemma parse_first_tools_pattern:
  "parse (''^[a-z]+'' @ [backslash] @ ''+?$'')
     = Some [Bol, Rep 1 (Cls [(97, 122)]), Opt (Lit 43), Eol]"
  by code_simp

lemma patterns_parse:
  "list_all (\<lambda>p. parse p \<noteq> None) technical_patterns"
  "list_all (\<lambda>p. parse p \<noteq> None) tools_patterns"
  "list_all (\<lambda>p. parse p \<noteq> None) soft_patterns"
  by code_simp+

lemma any_match_total:
  "list_all (\<lambda>p. parse p \<noteq> None) ps \<Longrightarrow> \<exists>b. any_match U ps w = Inr b"
  by (induction ps) (auto simp: re_match_def)

lemma any_match_tools_letters:
  assumes "w \<noteq> []" "\<forall>c \<in> set w. is_upper c \<or> is_lower c"
  shows "any_match U tools_patterns w = Inr True"
proof -
  from assms(1) have "1 \<le> length w" by (cases w) simp_all
  from rmatch_letters [OF assms(2) this]
  have "re_match U (''^[a-z]+'' @ [backslash] @ ''+?$'') w True = Inr True"
    unfolding re_match_def parse_first_tools_pattern by simp
  then show ?thesis by (simp add: tools_patterns_def)
qed

text \<open>
  C10. On a non-empty word of ASCII letters only, the only kind of keyword that
  \<open>extract_keywords\<close> produces, \<open>categorize_keyword\<close> returns \<open>Technical Skills\<close> or
  \<open>Tools & Technologies\<close>, never \<open>Soft Skills\<close> or \<open>Other Skills\<close>: the first pattern of
  the tools list matches every such word.
\<close>

theorem categorize_keyword_alphabetic:
  assumes "w \<noteq> []" and "\<forall>c \<in> set w. is_upper c \<or> is_lower c"
  shows "(categorize_keyword U w = Inr (lit ''Technical Skills'')
          \<or> categorize_keyword U w = Inr (lit ''Tools & Technologies''))
       \<and> categorize_keyword U w \<noteq> Inr (lit ''Soft Skills'')
       \<and> categorize_keyword U w \<noteq> Inr (lit ''Other Skills'')"
proof -
  obtain t where t: "any_match U technical_patterns w = Inr t"
    using any_match_total [OF patterns_parse(1)] by blast
  have u: "any_match U tools_patterns w = Inr True"
    using assms by (rule any_match_tools_letters)
  show ?thesis
    by (cases t) (simp_all add: categorize_keyword_def t u)
qed

theorem categorize_keyword_alphabetic_witness:
  "(lit ''teamwork'') \<noteq> [] \<and> list_all (\<lambda>c. is_upper c \<or> is_lower c) (lit ''teamwork'')
   \<and> (categorize_keyword ascii_db (lit ''teamwork'') = Inr (lit ''Technical Skills'')
        \<or> categorize_keyword ascii_db (lit ''teamwork'') = Inr (lit ''Tools & Technologies''))
   \<and> categorize_keyword ascii_db (lit ''teamwork'') \<noteq> Inr (lit ''Soft Skills'')"
proof -
  have a: "(lit ''teamwork'') \<noteq> []" by simp
  have b: "\<forall>c \<in> set (lit ''teamwork''). is_upper c \<or> is_lower c"
    by (simp add: lit_def is_upper_def is_lower_def code_def)
  from categorize_keyword_alphabetic [OF a b, of ascii_db] a b show ?thesis
    by (simp add: list_all_iff)
qed

lemmas re_eval =
  categorize_keyword_def technical_patterns_def tools_patterns_def soft_patterns_def
  re_match_def parse_quant_def backslash_def newline_def re_fold_def re_upper_def
  is_upper_def is_lower_def is_digit_def is_alnum_def code_def lit_def in_ranges_def

lemma categorize_communication:
  "categorize_keyword U (lit ''communication'') = Inr (lit ''Tools & Technologies'')"
  by (simp add: re_eval)

lemma categorize_teamwork:
  "categorize_keyword U (lit ''teamwork'') = Inr (lit ''Tools & Technologies'')"
  by (simp add: re_eval)

lemma categorize_leadership:
  "categorize_keyword U (lit ''leadership'') = Inr (lit ''Tools & Technologies'')"
  by (simp add: re_eval)

lemma categorize_teamwork_skills:
  "categorize_keyword U (lit ''teamwork skills'') = Inr (lit ''Soft Skills'')"
  by (simp add: re_eval)

text \<open>
  C3. \<open>categorize_keyword\<close> tries the technical, the tools and the soft patterns in this
  order. The words \<open>communication\<close>, \<open>teamwork\<close> and \<open>leadership\<close>, which the soft list
  names, are caught by the tools list before the soft list is reached; a keyword that
  holds a soft term next to a character that is no letter does reach it.
\<close>

theorem categorize_keyword_soft_terms:
  "categorize_keyword U (lit ''communication'') = Inr (lit ''Tools & Technologies'')
   \<and> categorize_keyword U (lit ''teamwork'') = Inr (lit ''Tools & Technologies'')
   \<and> categorize_keyword U (lit ''leadership'') = Inr (lit ''Tools & Technologies'')
   \<and> categorize_keyword U (lit ''teamwork skills'') = Inr (lit ''Soft Skills'')"
  using categorize_communication categorize_teamwork categorize_leadership
    categorize_teamwork_skills
  by (intro conjI)

section \<open>Properties of extract_keywords\<close>

declare findall.simps [simp del]

lemma parse_word_pattern: "parse word_pattern = Some word_regex"
  unfolding word_regex_def by code_simp

lemma atom_ok_letter:
  "atom_ok False (Cls [(97, 122), (65, 90)]) c = is_letter c"
  by (auto simp: in_ranges_def is_letter_def is_lower_def is_upper_def)

lemma rmatch_rep_letters:
  assumes "rmatch U False [Rep n (Cls [(97, 122), (65, 90)]), Wb] prev s
             = Some rest"
  shows "\<exists>tok. s = tok @ rest \<and> n \<le> length tok \<and> (\<forall>c \<in> set tok. is_letter c)
           \<and> at_boundary U (if tok = [] then prev else Some (last tok)) rest"
  using assms
proof (induction s arbitrary: n prev)
  case Nil
  then show ?case by (auto split: if_splits)
next
  case (Cons c cs)
  let ?L = "Cls [(97, 122), (65, 90)]"
  have stop: ?case if "n = 0" "rmatch U False [Wb] prev (c # cs) = Some rest"
  proof -
    from that(2) have "rest = c # cs" "at_boundary U prev (c # cs)"
      by (auto split: if_splits)
    with that(1) show ?thesis by (intro exI [of _ "[]"]) simp
  qed
  show ?case
  proof (cases "is_letter c")
    case False
    with Cons.prems have "n = 0" "rmatch U False [Wb] prev (c # cs) = Some rest"
      by (auto simp: atom_ok_letter simp del: atom_ok.simps split: if_splits)
    then show ?thesis by (rule stop)
  next
    case True
    show ?thesis
    proof (cases "rmatch U False [Rep (n - 1) ?L, Wb] (Some c) cs")
      case None
      with True Cons.prems have "n = 0" "rmatch U False [Wb] prev (c # cs) = Some rest"
        by (auto simp: atom_ok_letter simp del: atom_ok.simps split: if_splits)
      then show ?thesis by (rule stop)
    next
      case (Some rest')
      with True Cons.prems have "rest' = rest"
        by (auto simp: atom_ok_letter simp del: atom_ok.simps split: if_splits)
      with Some Cons.IH [of "n - 1" "Some c"]
      obtain tok where tok: "cs = tok @ rest" "n - 1 \<le> length tok" "\<forall>c \<in> set tok. is_letter c"
        "at_boundary U (if tok = [] then Some c else Some (last tok)) rest"
        by blast
      with True show ?thesis
        by (intro exI [of _ "c # tok"]) auto
    qed
  qed
qed

lemma rmatch_word_regex:
  assumes letters: "\<forall>c. is_letter c \<longrightarrow> isword U c"
    and m: "rmatch U False word_regex prev s = Some rest"
  shows "\<exists>tok. s = tok @ rest \<and> 3 \<le> length tok \<and> (\<forall>c \<in> set tok. is_letter c)
           \<and> (case prev of None \<Rightarrow> True | Some p \<Rightarrow> \<not> isword U p)
           \<and> (rest = [] \<or> \<not> isword U (hd rest))"
proof -
  from m have b: "at_boundary U prev s"
    and r: "rmatch U False [Rep 3 (Cls [(97, 122), (65, 90)]), Wb] prev s
              = Some rest"
    by (auto simp: word_regex_def split: if_splits)
  from rmatch_rep_letters [OF r] obtain tok where tok: "s = tok @ rest" "3 \<le> length tok"
    "\<forall>c \<in> set tok. is_letter c" "at_boundary U (if tok = [] then prev else Some (last tok)) rest"
    by blast
  from tok(2) obtain c tok' where c: "tok = c # tok'" by (cases tok) auto
  with tok(3) have "isword U c" "isword U (last tok)" by (auto simp: letters)
  with b tok(1,4) c have "(case prev of None \<Rightarrow> True | Some p \<Rightarrow> \<not> isword U p)"
    "rest = [] \<or> \<not> isword U (hd rest)"
    by (auto simp: at_boundary_def split: option.splits list.splits)
  with tok show ?thesis by blast
qed

lemma findall_words:
  assumes letters: "\<forall>c. is_letter c \<longrightarrow> isword U c"
    and tok: "tok \<in> set (findall U False word_regex prev s)"
    and prev: "prev = last_opt pre0"
  shows "3 \<le> length tok \<and> (\<forall>c \<in> set tok. is_letter c) \<and> occurs_as_word U tok (pre0 @ s)"
  using tok prev
proof (induction "length s" arbitrary: s prev pre0 rule: less_induct)
  case less
  show ?case
  proof (cases "rmatch U False word_regex prev s")
    case None
    show ?thesis
    proof (cases s)
      case Nil
      with None less.prems(1) show ?thesis by (simp add: findall.simps [of _ _ _ _ "[]"])
    next
      case (Cons c cs)
      with None less.prems(1) have "tok \<in> set (findall U False word_regex (Some c) cs)"
        by (simp add: findall.simps [of _ _ _ prev "c # cs"])
      moreover have "Some c = last_opt (pre0 @ [c])" by (simp add: last_opt_def)
      moreover have "length cs < length s" using Cons by simp
      ultimately have "3 \<le> length tok \<and> (\<forall>c \<in> set tok. is_letter c)
          \<and> occurs_as_word U tok ((pre0 @ [c]) @ cs)"
        using less.hyps by blast
      with Cons show ?thesis by simp
    qed
  next
    case (Some rest)
    from rmatch_word_regex [OF letters Some] obtain w where w: "s = w @ rest" "3 \<le> length w"
      "\<forall>c \<in> set w. is_letter c" "case prev of None \<Rightarrow> True | Some p \<Rightarrow> \<not> isword U p"
      "rest = [] \<or> \<not> isword U (hd rest)"
      by blast
    from w(1,2) have n: "length s - length rest = length w" "length w \<noteq> 0" by auto
    from w(1) have tk: "take (length w) s = w" "drop (length w) s = rest" by simp_all
    from Some n tk have fa: "findall U False word_regex prev s
        = w # findall U False word_regex (Some (last w)) rest"
      by (simp add: findall.simps [of _ _ _ prev s] Let_def)
    from less.prems(2) w(4) have pre: "pre0 = [] \<or> \<not> isword U (last pre0)"
      by (auto simp: last_opt_def split: if_splits)
    show ?thesis
    proof (cases "tok = w")
      case True
      from pre w(5) have "occurs_as_word U w (pre0 @ w @ rest)"
        unfolding occurs_as_word_def by blast
      with True w show ?thesis by simp
    next
      case False
      with fa less.prems(1) have "tok \<in> set (findall U False word_regex (Some (last w)) rest)"
        by simp
      moreover from n(2) have "Some (last w) = last_opt (pre0 @ w)"
        by (simp add: last_opt_def)
      moreover have "length rest < length s" using w(1) n(2) by simp
      ultimately have "3 \<le> length tok \<and> (\<forall>c \<in> set tok. is_letter c)
          \<and> occurs_as_word U tok ((pre0 @ w) @ rest)"
        using less.hyps by blast
      with w(1) show ?thesis by simp
    qed
  qed
qed

lemma set_split_from:
  "w \<in> set (split_from U cur s) \<Longrightarrow> x \<in> set w \<Longrightarrow> x \<in> set cur \<union> set s"
proof (induction s arbitrary: cur)
  case Nil
  then show ?case by (auto split: if_splits)
next
  case (Cons a s)
  show ?case
  proof (cases "isspace U a")
    case True
    with Cons.prems(1) have "w = cur \<or> w \<in> set (split_from U [] s)"
      by (auto split: if_splits)
    then show ?thesis
    proof
      assume "w = cur"
      with Cons.prems(2) show ?thesis by simp
    next
      assume "w \<in> set (split_from U [] s)"
      from Cons.IH [OF this Cons.prems(2)] show ?thesis by simp
    qed
  next
    case False
    with Cons.prems(1) have "w \<in> set (split_from U (cur @ [a]) s)" by simp
    from Cons.IH [OF this Cons.prems(2)] show ?thesis by auto
  qed
qed

lemma set_join: "set (join sep ps) \<subseteq> set sep \<union> \<Union> (set ` set ps)"
  by (induction sep ps rule: join.induct) auto

lemma clean_text_no_upper:
  assumes low: "\<forall>t c. c \<in> set (str_lower U t) \<longrightarrow> \<not> is_upper c"
    and c: "c \<in> set (clean_text U t)"
  shows "\<not> is_upper c"
proof -
  from c have "c \<in> set (lit '' '') \<union> \<Union> (set ` set (split_from U [] (lower U t)))"
    using set_join [of "lit '' ''" "split U (lower U t)"] by (auto simp: clean_text_def split_def)
  then have "c = 32 \<or> c \<in> set (lower U t)"
    using set_split_from [of _ U "[]" "lower U t" c] by (auto simp: lit_def code_def)
  then show ?thesis
  proof
    assume "c = 32"
    then show ?thesis by (simp add: is_upper_def)
  next
    assume "c \<in> set (lower U t)"
    then show ?thesis by (simp add: lower_def low)
  qed
qed

lemma job_words_findall: "job_words U t = findall U False word_regex None (clean_text U t)"
  by (simp add: job_words_def re_findall_def parse_word_pattern)

lemma job_words_sound:
  assumes low: "\<forall>t c. c \<in> set (str_lower U t) \<longrightarrow> \<not> is_upper c"
    and letters: "\<forall>c. is_letter c \<longrightarrow> isword U c"
    and w: "w \<in> set (job_words U t)"
  shows "3 \<le> length w \<and> (\<forall>c \<in> set w. is_lower c) \<and> occurs_as_word U w (clean_text U t)"
proof -
  from w have "w \<in> set (findall U False word_regex None (clean_text U t))"
    by (simp add: job_words_findall)
  from findall_words [OF letters this, of "[]"]
  have a: "3 \<le> length w" "\<forall>c \<in> set w. is_letter c" "occurs_as_word U w (clean_text U t)"
    by (simp_all add: last_opt_def)
  from a(3) have "set w \<subseteq> set (clean_text U t)"
    by (auto simp: occurs_as_word_def)
  with a(2) have "\<forall>c \<in> set w. is_lower c"
    using clean_text_no_upper [OF low, of _ t] by (auto simp: is_letter_def)
  with a show ?thesis by simp
qed

lemma categorize_keyword_total: "categorize_keyword U kw = Inr (category_of U kw)"
proof -
  obtain t u v where "any_match U technical_patterns kw = Inr t"
    "any_match U tools_patterns kw = Inr u" "any_match U soft_patterns kw = Inr v"
    using any_match_total [OF patterns_parse(1)] any_match_total [OF patterns_parse(2)]
      any_match_total [OF patterns_parse(3)]
    by metis
  then have "\<exists>c. categorize_keyword U kw = Inr c"
    by (simp add: categorize_keyword_def)
  then show ?thesis by (auto simp: category_of_def)
qed

lemma categorize_loop_map:
  "categorize_loop U wn it d acc kws =
     Inr (acc @ map (\<lambda>k. \<lparr>keyword = k, category = category_of U k,
                          synonyms = get_synonyms U wn it k, count = counter_get d k\<rparr>) kws)"
  by (induction kws arbitrary: acc) (simp_all add: categorize_keyword_total)

lemma extract_keywords_map:
  "extract_keywords U wn it t =
     Inr (map (\<lambda>k. \<lparr>keyword = k, category = category_of U k,
                     synonyms = get_synonyms U wn it k,
                     count = counter_get (Counter (filtered_words U t)) k\<rparr>)
            (map fst (most_common 30 (Counter (filtered_words U t)))))"
  by (simp add: extract_keywords_def re_findall_def parse_word_pattern categorize_loop_map
      filtered_words_def job_words_def Let_def)

lemma foldl_count: "foldl (\<lambda>(c::int) x. c + 1) z ys = z + int (length ys)"
  by (induction ys arbitrary: z) auto

lemma Counter_map:
  "Counter ws = map (\<lambda>k. (k, int (length (filter (\<lambda>x. x = k) ws)))) (first_occurrences ws)"
  using foldl_dict_upd [where g = "\<lambda>(c::int) x. c + 1" and z = 0 and key = "\<lambda>x. x" and xs = ws]
  by (simp add: Counter_def foldl_count)

lemma set_most_common: "set (most_common n d) \<subseteq> set d"
  using set_take_subset [of n "sort_key (\<lambda>(w, c). - c) d"] by (simp add: most_common_def)

text \<open>
  C4. \<open>extract_keywords\<close> returns, for every job text, at most 30 entries; the keyword of
  each is made of at least 3 lower-case ASCII letters, stands as a word in the cleaned
  job text, and is no stop word. The job text is any sequence of code points. Of
  Python's Unicode database two facts are used: \<^verbatim>\<open>str.lower\<close> leaves no ASCII capital
  letter in a text, and the ASCII letters are word characters.
\<close>

theorem extract_keywords_sound:
  assumes "\<forall>t c. c \<in> set (str_lower U t) \<longrightarrow> \<not> is_upper c"
    and "\<forall>c. is_upper c \<or> is_lower c \<longrightarrow> isword U c"
  shows "\<exists>ks. extract_keywords U wordnet set_iter job_text = Inr ks
     \<and> length ks \<le> 30
     \<and> (\<forall>k \<in> set ks.
           3 \<le> length (keyword k)
         \<and> (\<forall>c \<in> set (keyword k). is_lower c)
         \<and> occurs_as_word U (keyword k) (clean_text U job_text)
         \<and> keyword k \<notin> set stop_words)"
proof -
  have letters: "\<forall>c. is_letter c \<longrightarrow> isword U c"
    using assms(2) by (simp add: is_letter_def)
  let ?top = "most_common 30 (Counter (filtered_words U job_text))"
  have len: "length ?top \<le> 30" by (simp add: most_common_def)
  have "fst p \<in> set (filtered_words U job_text)" if "p \<in> set ?top" for p
  proof -
    from that set_most_common have "p \<in> set (Counter (filtered_words U job_text))" by blast
    then show ?thesis by (auto simp: Counter_map)
  qed
  then have "fst p \<in> set (job_words U job_text) \<and> fst p \<notin> set stop_words"
    if "p \<in> set ?top" for p
    using that by (auto simp: filtered_words_def)
  then have "3 \<le> length (fst p) \<and> (\<forall>c \<in> set (fst p). is_lower c)
      \<and> occurs_as_word U (fst p) (clean_text U job_text) \<and> fst p \<notin> set stop_words"
    if "p \<in> set ?top" for p
    using that job_words_sound [OF assms(1) letters, of "fst p" job_text] by blast
  with len show ?thesis
    by (simp add: extract_keywords_map)
qed

lemma keywords_of_example:
  "map fst (most_common 30 (Counter (filtered_words ascii_db (lit ''We need Python and SQL; python is a must''))))
     = [(lit ''python''), (lit ''need''), (lit ''sql''), (lit ''must'')]"
  by code_simp

theorem extract_keywords_sound_witness:
  "\<exists>ks. extract_keywords ascii_db DummyWordnet (\<lambda>xs. xs) (lit ''We need Python and SQL; python is a must'')
           = Inr ks
     \<and> map keyword ks = [(lit ''python''), (lit ''need''), (lit ''sql''), (lit ''must'')]
     \<and> length ks \<le> 30
     \<and> (\<forall>k \<in> set ks.
           3 \<le> length (keyword k)
         \<and> (\<forall>c \<in> set (keyword k). is_lower c)
         \<and> occurs_as_word ascii_db (keyword k)
               (clean_text ascii_db (lit ''We need Python and SQL; python is a must''))
         \<and> keyword k \<notin> set stop_words)"
proof -
  have low: "\<forall>t c. c \<in> set (str_lower ascii_db t) \<longrightarrow> \<not> is_upper c"
    by (auto simp: ascii_db_def ascii_lower_def is_upper_def)
  have letters: "\<forall>c. is_upper c \<or> is_lower c \<longrightarrow> isword ascii_db c"
    by (simp add: ascii_db_def)
  from extract_keywords_sound
    [OF low letters, of DummyWordnet "\<lambda>xs. xs" "(lit ''We need Python and SQL; python is a must'')"]
  obtain ks where ks: "extract_keywords ascii_db DummyWordnet (\<lambda>xs. xs)
        (lit ''We need Python and SQL; python is a must'') = Inr ks"
    and l: "length ks \<le> 30"
    and p: "\<forall>k \<in> set ks.
           3 \<le> length (keyword k)
         \<and> (\<forall>c \<in> set (keyword k). is_lower c)
         \<and> occurs_as_word ascii_db (keyword k)
               (clean_text ascii_db (lit ''We need Python and SQL; python is a must''))
         \<and> keyword k \<notin> set stop_words"
    by blast
  from ks have "map keyword ks = [(lit ''python''), (lit ''need''), (lit ''sql''), (lit ''must'')]"
    by (auto simp: extract_keywords_map comp_def keywords_of_example [symmetric])
  with ks l p show ?thesis by (intro exI [of _ ks] conjI)
qed

lemma first_pos_Cons: "first_pos (x # xs) y = (if y = x then 0 else Suc (first_pos xs y))"
  by (simp add: first_pos_def)

lemma first_occurrences_sorted:
  "sorted_wrt (\<lambda>a b. first_pos ws a < first_pos ws b) (first_occurrences ws)"
proof (induction ws)
  case Nil
  show ?case by simp
next
  case (Cons x xs)
  have "sorted_wrt (\<lambda>a b. first_pos xs a < first_pos xs b)
          (filter (\<lambda>y. y \<noteq> x) (first_occurrences xs))"
    using Cons.IH by (rule sorted_wrt_filter)
  then have "sorted_wrt (\<lambda>a b. first_pos (x # xs) a < first_pos (x # xs) b)
          (filter (\<lambda>y. y \<noteq> x) (first_occurrences xs))"
    by (rule sorted_wrt_mono_rel [rotated]) (simp add: first_pos_Cons)
  then show ?case by (simp add: first_pos_Cons)
qed

lemma first_occurrences_filter:
  "first_occurrences (filter P ws) = filter P (first_occurrences ws)"
proof (induction ws)
  case Nil
  show ?case by simp
next
  case (Cons x xs)
  show ?case
  proof (cases "P x")
    case True
    then show ?thesis by (simp add: Cons.IH) (metis (mono_tags, lifting) filter_cong)
  next
    case False
    then have "filter P (filter (\<lambda>y. y \<noteq> x) (first_occurrences xs))
        = filter P (first_occurrences xs)"
      by (auto intro: filter_cong)
    with False show ?thesis by (simp add: Cons.IH)
  qed
qed

lemma insort_key_lex:
  fixes f :: "'a \<Rightarrow> 'k::linorder"
  assumes "sorted_wrt (\<lambda>a b. f a < f b \<or> (f a = f b \<and> S a b)) ys"
    "sorted (map f ys)" "\<forall>y \<in> set ys. S x y"
  shows "sorted_wrt (\<lambda>a b. f a < f b \<or> (f a = f b \<and> S a b)) (insort_key f x ys)"
  using assms
proof (induction ys)
  case Nil
  show ?case by simp
next
  case (Cons y ys)
  show ?case
  proof (cases "f x \<le> f y")
    case True
    have "f x < f z \<or> (f x = f z \<and> S x z)" if "z \<in> set (y # ys)" for z
    proof -
      from that Cons.prems(2) have "f y \<le> f z" by auto
      with True have "f x \<le> f z" by simp
      moreover from that Cons.prems(3) have "S x z" by auto
      ultimately show ?thesis by auto
    qed
    with True Cons.prems(1) show ?thesis by simp
  next
    case False
    from Cons.prems have "sorted_wrt (\<lambda>a b. f a < f b \<or> (f a = f b \<and> S a b)) (insort_key f x ys)"
      by (intro Cons.IH) simp_all
    with False Cons.prems(1) show ?thesis
      by (auto simp: set_insort_key)
  qed
qed

lemma sort_key_lex:
  fixes f :: "'a \<Rightarrow> 'k::linorder"
  assumes "sorted_wrt S xs"
  shows "sorted_wrt (\<lambda>a b. f a < f b \<or> (f a = f b \<and> S a b)) (sort_key f xs)"
  using assms
proof (induction xs)
  case Nil
  show ?case by simp
next
  case (Cons x xs)
  from Cons.prems have "sorted_wrt S xs" "\<forall>y \<in> set (sort_key f xs). S x y"
    by simp_all
  with Cons.IH show ?case
    by (simp add: sort_key_simps insort_key_lex)
qed

lemma counter_get_Counter:
  "k \<in> set ws \<Longrightarrow> counter_get (Counter ws) k = int (length (filter (\<lambda>x. x = k) ws))"
  by (simp add: counter_get_def Counter_map map_of_map_restrict)

lemma Counter_sorted:
  "sorted_wrt (\<lambda>a b. first_pos ws (fst a) < first_pos ws (fst b)) (Counter (filter P ws))"
proof -
  have "sorted_wrt (\<lambda>a b. first_pos ws a < first_pos ws b) (filter P (first_occurrences ws))"
    using first_occurrences_sorted by (rule sorted_wrt_filter)
  then show ?thesis
    by (simp add: Counter_map sorted_wrt_map first_occurrences_filter)
qed

lemma most_common_sorted:
  assumes "sorted_wrt S d"
  shows "sorted_wrt (\<lambda>a b. snd b < snd a \<or> (snd a = snd b \<and> S a b)) (most_common n d)"
proof -
  have "sorted_wrt (\<lambda>a b. (case a of (w, c) \<Rightarrow> - c) < (case b of (w, c) \<Rightarrow> - c)
            \<or> ((case a of (w, c) \<Rightarrow> - c) = (case b of (w, c) \<Rightarrow> - c) \<and> S a b))
          (sort_key (\<lambda>(w, c). - c) d)"
    using assms by (rule sort_key_lex)
  then have "sorted_wrt (\<lambda>a b. snd b < snd a \<or> (snd a = snd b \<and> S a b))
          (sort_key (\<lambda>(w, c). - c) d)"
    by (rule sorted_wrt_mono_rel [rotated]) (auto split: prod.splits)
  then show ?thesis
    unfolding most_common_def by (rule sorted_wrt_take)
qed

lemma count_filtered:
  "k \<notin> set stop_words \<Longrightarrow>
     int (length (filter (\<lambda>x. x = k) (filtered_words U t))) = int (count_list (job_words U t) k)"
proof -
  assume k: "k \<notin> set stop_words"
  have "filter (\<lambda>x. x = k) (filtered_words U t) = filter (\<lambda>x. x = k) (job_words U t)"
    unfolding filtered_words_def filter_filter using k by (intro filter_cong) auto
  moreover have "filter (\<lambda>x. x = k) (job_words U t) = filter ((=) k) (job_words U t)"
    by (intro filter_cong) auto
  ultimately show ?thesis by (simp add: count_list_eq_length_filter)
qed

text \<open>
  C5. The entries that \<open>extract_keywords\<close> returns are in the order of falling frequency:
  of two entries the earlier has the greater count, or the same count and the earlier
  first occurrence in the token stream. The count of an entry is the number of
  occurrences of its keyword in the token stream. The keywords, their order and their
  counts are the same whatever WordNet answers and in whatever order Python iterates over
  its sets, and so are the categories: they are a function of the job text alone.
\<close>

theorem extract_keywords_ranking:
  "\<exists>ks. extract_keywords U wordnet set_iter job_text = Inr ks
     \<and> sorted_wrt (\<lambda>a b. count b < count a
           \<or> (count a = count b
               \<and> first_pos (job_words U job_text) (keyword a)
                   < first_pos (job_words U job_text) (keyword b))) ks
     \<and> (\<forall>k \<in> set ks. count k = int (count_list (job_words U job_text) (keyword k)))
     \<and> (\<forall>wordnet' set_iter'. \<exists>ks'.
           extract_keywords U wordnet' set_iter' job_text = Inr ks'
         \<and> map keyword ks' = map keyword ks \<and> map count ks' = map count ks
         \<and> map category ks' = map category ks)"
proof -
  let ?ws = "job_words U job_text"
  let ?fw = "filtered_words U job_text"
  let ?top = "most_common 30 (Counter ?fw)"
  let ?mk = "\<lambda>k. \<lparr>keyword = k, category = category_of U k,
                    synonyms = get_synonyms U wordnet set_iter k,
                    count = counter_get (Counter ?fw) k\<rparr>"
  let ?ks = "map ?mk (map fst ?top)"
  let ?T = "\<lambda>a b :: kw_info. count b < count a
           \<or> (count a = count b
               \<and> first_pos ?ws (keyword a) < first_pos ?ws (keyword b))"
  have ks: "extract_keywords U wordnet set_iter job_text = Inr ?ks"
    by (rule extract_keywords_map)
  have mem: "fst p \<in> set ?fw \<and> snd p = int (length (filter (\<lambda>x. x = fst p) ?fw))"
    if "p \<in> set ?top" for p
  proof -
    from that set_most_common have "p \<in> set (Counter ?fw)" by blast
    then show ?thesis by (auto simp: Counter_map)
  qed
  have cnt: "counter_get (Counter ?fw) (fst p) = snd p" if "p \<in> set ?top" for p
    using mem [OF that] by (simp add: counter_get_Counter)
  have "sorted_wrt (\<lambda>a b. first_pos ?ws (fst a) < first_pos ?ws (fst b)) (Counter ?fw)"
    unfolding filtered_words_def by (rule Counter_sorted)
  then have "sorted_wrt (\<lambda>a b. snd b < snd a
        \<or> (snd a = snd b \<and> first_pos ?ws (fst a) < first_pos ?ws (fst b))) ?top"
    by (rule most_common_sorted)
  then have "sorted_wrt (\<lambda>p q. ?T (?mk (fst p)) (?mk (fst q))) ?top"
    by (rule sorted_wrt_mono_rel [rotated]) (simp add: cnt)
  then have sorted: "sorted_wrt ?T ?ks"
    by (simp add: sorted_wrt_map)
  have counts: "\<forall>k \<in> set ?ks. count k = int (count_list ?ws (keyword k))"
  proof
    fix k assume "k \<in> set ?ks"
    then obtain p where p: "p \<in> set ?top" "k = ?mk (fst p)" by auto
    from mem [OF p(1)] have "fst p \<notin> set stop_words"
      by (simp add: filtered_words_def)
    from count_filtered [OF this, of U job_text] mem [OF p(1)] cnt [OF p(1)] p(2)
    show "count k = int (count_list ?ws (keyword k))" by simp
  qed
  have det: "\<exists>ks'. extract_keywords U wordnet' set_iter' job_text = Inr ks'
      \<and> map keyword ks' = map keyword ?ks \<and> map count ks' = map count ?ks
      \<and> map category ks' = map category ?ks"
    for wordnet' set_iter'
    by (simp add: extract_keywords_map comp_def)
  from ks sorted counts det show ?thesis by blast
qed

lemma entries_of_example:
  "map (\<lambda>p. (fst p, counter_get (Counter (filtered_words ascii_db (lit ''We need Python and SQL; python is a must''))) (fst p)))
     (most_common 30 (Counter (filtered_words ascii_db (lit ''We need Python and SQL; python is a must''))))
     = [((lit ''python''), 2), ((lit ''need''), 1), ((lit ''sql''), 1), ((lit ''must''), 1)]"
  by code_simp

theorem extract_keywords_ranking_witness:
  "\<exists>ks. extract_keywords ascii_db DummyWordnet (\<lambda>xs. xs) (lit ''We need Python and SQL; python is a must'')
           = Inr ks
     \<and> map (\<lambda>k. (keyword k, count k)) ks
         = [((lit ''python''), 2), ((lit ''need''), 1), ((lit ''sql''), 1), ((lit ''must''), 1)]
     \<and> (\<forall>k \<in> set ks.
           count k = int (count_list (job_words ascii_db (lit ''We need Python and SQL; python is a must''))
                            (keyword k)))"
proof -
  from extract_keywords_ranking
    [of ascii_db DummyWordnet "\<lambda>xs. xs" "(lit ''We need Python and SQL; python is a must'')"]
  obtain ks where ks: "extract_keywords ascii_db DummyWordnet (\<lambda>xs. xs)
        (lit ''We need Python and SQL; python is a must'') = Inr ks"
    and p: "\<forall>k \<in> set ks.
           count k = int (count_list (job_words ascii_db (lit ''We need Python and SQL; python is a must''))
                            (keyword k))"
    by blast
  from ks have "map (\<lambda>k. (keyword k, count k)) ks
      = [((lit ''python''), 2), ((lit ''need''), 1), ((lit ''sql''), 1), ((lit ''must''), 1)]"
    by (auto simp: extract_keywords_map comp_def entries_of_example [symmetric])
  with ks p show ?thesis by (intro exI [of _ ks] conjI)
qed

section \<open>Properties of calculate_match\<close>

lemma find_hd_filter: "list_ex P xs \<Longrightarrow> find P xs = Some (hd (filter P xs))"
  by (induction xs) auto

lemma hd_filter_first:
  "\<exists>x \<in> set xs. P x \<Longrightarrow>
     \<exists>pre post. xs = pre @ hd (filter P xs) # post \<and> P (hd (filter P xs)) \<and> (\<forall>p \<in> set pre. \<not> P p)"
proof (induction xs)
  case Nil
  then show ?case by simp
next
  case (Cons x xs)
  show ?case
  proof (cases "P x")
    case True
    then have "x # xs = [] @ hd (filter P (x # xs)) # xs" by simp
    with True show ?thesis by (metis filter.simps(2) list.sel(1) empty_iff list.set(1))
  next
    case False
    with Cons.prems have "\<exists>y \<in> set xs. P y" by auto
    from Cons.IH [OF this] obtain pre post where
      "xs = pre @ hd (filter P xs) # post" "P (hd (filter P xs))" "\<forall>p \<in> set pre. \<not> P p"
      by blast
    with False have "x # xs = (x # pre) @ hd (filter P (x # xs)) # post
        \<and> P (hd (filter P (x # xs))) \<and> (\<forall>p \<in> set (x # pre). \<not> P p)"
      by simp
    then show ?thesis by blast
  qed
qed

lemma match_step_tally: "match_step rc st k = Inr (tally rc [k] st)"
  by (simp add: match_step_def tally_def spec_found_def spec_classify_def str_in_def entry_of_def
      list_ex_iff find_hd_filter Let_def)

lemma tally_Cons: "tally rc ks (tally rc [k] st) = tally rc (k # ks) st"
  by (simp add: tally_def split: option.splits)

lemma match_loop_tally: "match_loop rc st ks = Inr (tally rc ks st)"
proof (induction ks arbitrary: st)
  case Nil
  show ?case by (simp add: tally_def)
next
  case (Cons k ks)
  then show ?case by (simp add: match_step_tally tally_Cons)
qed

lemma calculate_match_tally:
  "calculate_match U t ks =
     Inr \<lparr>found_keywords = List.map_filter (spec_found (clean_text U t)) ks,
          missing_keywords =
            map entry_of (filter (\<lambda>k. spec_classify (clean_text U t) k = Missing) ks),
          exact_matches =
            int (length (filter (\<lambda>k. spec_classify (clean_text U t) k = ExactMatch) ks)),
          synonym_matches =
            int (length (filter (\<lambda>k. \<exists>s. spec_classify (clean_text U t) k = SynonymMatch s) ks)),
          match_percentage =
            (if ks = [] then 0
             else weighted_score
                    (int (length (filter (\<lambda>k. spec_classify (clean_text U t) k = ExactMatch) ks)))
                    (int (length (filter (\<lambda>k. \<exists>s. spec_classify (clean_text U t) k = SynonymMatch s) ks)))
                    (int (length ks))),
          total_keywords = int (length ks)\<rparr>"
  by (simp add: calculate_match_def match_loop_tally tally_def weighted_score_def Let_def)

lemma status_partition:
  "length (filter (\<lambda>k. spec_classify rc k = ExactMatch) ks)
   + length (filter (\<lambda>k. \<exists>s. spec_classify rc k = SynonymMatch s) ks)
   + length (filter (\<lambda>k. spec_classify rc k = Missing) ks) = length ks"
proof (induction ks)
  case Nil
  show ?case by simp
next
  case (Cons k ks)
  then show ?case by (cases "spec_classify rc k") simp_all
qed

lemma found_exact_tally:
  "length (filter (\<lambda>f. match_type f = (lit ''exact'')) (List.map_filter (spec_found rc) ks))
   = length (filter (\<lambda>k. spec_classify rc k = ExactMatch) ks)"
proof (induction ks)
  case Nil
  show ?case by simp
next
  case (Cons k ks)
  then show ?case
    by (cases "spec_classify rc k") (simp_all add: spec_found_def)
qed

lemma found_synonym_tally:
  "length (filter (\<lambda>f. match_type f = (lit ''synonym'')) (List.map_filter (spec_found rc) ks))
   = length (filter (\<lambda>k. \<exists>s. spec_classify rc k = SynonymMatch s) ks)"
proof (induction ks)
  case Nil
  show ?case by simp
next
  case (Cons k ks)
  then show ?case
    by (cases "spec_classify rc k") (simp_all add: spec_found_def)
qed

lemma found_length:
  "length (List.map_filter (spec_found rc) ks)
   = length (filter (\<lambda>k. spec_classify rc k = ExactMatch) ks)
     + length (filter (\<lambda>k. \<exists>s. spec_classify rc k = SynonymMatch s) ks)"
proof (induction ks)
  case Nil
  show ?case by simp
next
  case (Cons k ks)
  then show ?case
    by (cases "spec_classify rc k") (simp_all add: spec_found_def)
qed

subsection \<open>Rounding to a double\<close>











subsection \<open>The score\<close>



lemma calculate_match_replicate:
  assumes "spec_classify (clean_text U t) a = ExactMatch"
    and "spec_classify (clean_text U t) b = SynonymMatch s"
    and "0 < n"
  shows "\<exists>r. calculate_match U t (replicate n a @ replicate m b) = Inr r
           \<and> exact_matches r = int n \<and> synonym_matches r = int m
           \<and> total_keywords r = int n + int m
           \<and> match_percentage r = weighted_score (int n) (int m) (int n + int m)"
  using assms by (simp add: calculate_match_tally)



text \<open>
  The score is not at most 100 on every keyword list. With \<open>2 ^ 54 + 7\<close> exact matches
  and 3 synonym matches among \<open>2 ^ 54 + 10\<close> keywords the counts are no doubles:
  \<^verbatim>\<open>exact_matches * 1.0\<close> is \<open>2 ^ 54 + 8\<close>, the sum with \<^verbatim>\<open>3 * 0.7\<close> rounds up to
  \<open>2 ^ 54 + 12\<close>, and the division converts \<open>total_keywords\<close> to \<open>2 ^ 54 + 8\<close>. The
  quotient is above 1 and the score is \<^verbatim>\<open>100.00000000000003\<close>.
\<close>

theorem calculate_match_score_counterexample:
  "\<exists>r. calculate_match ascii_db (lit ''python coding'') long_keywords = Inr r
     \<and> exact_matches r = 18014398509481991 \<and> synonym_matches r = 3
     \<and> total_keywords r = 18014398509481994
     \<and> match_percentage r = 3518437208883201 / 35184372088832
     \<and> 100 < match_percentage r"
proof -
  have a: "spec_classify (clean_text ascii_db (lit ''python coding''))
        \<lparr>keyword = lit ''python'', category = lit ''Technical Skills'', synonyms = [],
          count = 1\<rparr> = ExactMatch"
    by code_simp
  have b: "spec_classify (clean_text ascii_db (lit ''python coding''))
        \<lparr>keyword = lit ''programming'', category = lit ''Technical Skills'',
          synonyms = [lit ''coding''], count = 1\<rparr> = SynonymMatch (lit ''coding'')"
    by code_simp
  have v: "weighted_score 18014398509481991 3 18014398509481994
      = 3518437208883201 / 35184372088832"
    by code_simp
  have n: "0 < (18014398509481991 :: nat)" by simp
  from calculate_match_replicate [OF a b n, of 3]
  obtain r where r: "calculate_match ascii_db (lit ''python coding'') long_keywords = Inr r"
    and c: "exact_matches r = 18014398509481991" "synonym_matches r = 3"
      "total_keywords r = 18014398509481994"
    and m: "match_percentage r = weighted_score 18014398509481991 3 18014398509481994"
    unfolding long_keywords_def by auto
  from m have p: "match_percentage r = 3518437208883201 / 35184372088832"
    by (simp only: v)
  have "(100 :: rat) < 3518437208883201 / 35184372088832" by simp
  then have "100 < match_percentage r" by (simp only: p)
  with r c p show ?thesis by (intro exI [of _ r] conjI)
qed

lemma match_step_same_entry: "same_entry k k' \<Longrightarrow> match_step rc st k = match_step rc st k'"
  by (simp add: match_step_def same_entry_def)

lemma match_loop_same_entry:
  "list_all2 same_entry ks ks' \<Longrightarrow> match_loop rc st ks = match_loop rc st ks'"
proof (induction ks ks' arbitrary: st rule: list_all2_induct)
  case Nil
  show ?case by simp
next
  case (Cons k ks k' ks')
  then show ?case by (simp add: match_step_same_entry split: sum.splits)
qed

text \<open>
  C9. The result of \<open>calculate_match\<close> does not depend on the \<open>count\<close> fields: two
  keyword lists that agree, position by position, on keyword, category and synonyms give
  the same result on every resume text.
\<close>

theorem calculate_match_ignores_count:
  assumes "list_all2 same_entry ks ks'"
  shows "calculate_match U resume_text ks = calculate_match U resume_text ks'"
  by (simp add: calculate_match_def match_loop_same_entry [OF assms]
      list_all2_lengthD [OF assms] split: sum.splits)

theorem calculate_match_ignores_count_witness:
  "list_all2 same_entry
     [\<lparr>keyword = lit ''sql'', category = lit ''Technical Skills'', synonyms = [], count = 1\<rparr>]
     [\<lparr>keyword = lit ''sql'', category = lit ''Technical Skills'', synonyms = [], count = 7\<rparr>]
   \<and> calculate_match ascii_db (lit ''SQL expert'')
         [\<lparr>keyword = lit ''sql'', category = lit ''Technical Skills'', synonyms = [], count = 1\<rparr>]
     = calculate_match ascii_db (lit ''SQL expert'')
         [\<lparr>keyword = lit ''sql'', category = lit ''Technical Skills'', synonyms = [], count = 7\<rparr>]"
proof -
  have h: "list_all2 same_entry
     [\<lparr>keyword = lit ''sql'', category = lit ''Technical Skills'', synonyms = [], count = 1\<rparr>]
     [\<lparr>keyword = lit ''sql'', category = lit ''Technical Skills'', synonyms = [], count = 7\<rparr>]"
    by (simp add: same_entry_def)
  from h calculate_match_ignores_count [OF h, of ascii_db "(lit ''SQL expert'')"] show ?thesis by simp
qed

text \<open>
  C8. In the result of \<open>calculate_match\<close>, the exact matches, the synonym matches and
  the missing keywords add up to \<open>total_keywords\<close>, which is the length of the keyword
  list; the two counters are the tallies of the found records by match type, so that every
  keyword has exactly one of the three statuses.
\<close>

theorem calculate_match_counts:
  "\<exists>r. calculate_match U resume_text job_keywords = Inr r
     \<and> exact_matches r + synonym_matches r + int (length (missing_keywords r))
         = total_keywords r
     \<and> total_keywords r = int (length job_keywords)
     \<and> exact_matches r
         = int (length (filter (\<lambda>f. match_type f = (lit ''exact'')) (found_keywords r)))
     \<and> synonym_matches r
         = int (length (filter (\<lambda>f. match_type f = (lit ''synonym'')) (found_keywords r)))
     \<and> int (length (found_keywords r)) = exact_matches r + synonym_matches r"
proof -
  let ?rc = "clean_text U resume_text"
  have "int (length (filter (\<lambda>k. spec_classify ?rc k = ExactMatch) job_keywords))
        + int (length (filter (\<lambda>k. \<exists>s. spec_classify ?rc k = SynonymMatch s) job_keywords))
        + int (length (filter (\<lambda>k. spec_classify ?rc k = Missing) job_keywords))
        = int (length job_keywords)"
    using status_partition [of ?rc job_keywords] by linarith
  then show ?thesis
    by (simp add: calculate_match_tally found_exact_tally found_synonym_tally found_length)
qed

theorem calculate_match_counts_witness:
  "\<exists>r. calculate_match ascii_db (lit ''I know Python and  Coding'') example_keywords = Inr r
     \<and> exact_matches r = 1 \<and> synonym_matches r = 1 \<and> length (missing_keywords r) = 1
     \<and> total_keywords r = 3"
proof -
  have e: "calculate_match ascii_db (lit ''I know Python and  Coding'') example_keywords =
    Inr \<lparr>found_keywords =
          [\<lparr>keyword = lit ''python'', category = lit ''Technical Skills'', synonyms = [],
             match_type = lit ''exact'', matched_synonym = None\<rparr>,
           \<lparr>keyword = lit ''programming'', category = lit ''Technical Skills'',
             synonyms = [(lit ''scheduling''), (lit ''coding'')],
             match_type = lit ''synonym'', matched_synonym = Some (lit ''coding'')\<rparr>],
         missing_keywords =
           [\<lparr>keyword = lit ''teamwork'', category = lit ''Tools & Technologies'',
              synonyms = [(lit ''cooperation'')]\<rparr>],
         exact_matches = 1, synonym_matches = 1, match_percentage = 7975124340135253 / 140737488355328,
         total_keywords = 3\<rparr>"
    by code_simp
  from calculate_match_counts [of ascii_db "(lit ''I know Python and  Coding'')" example_keywords]
  show ?thesis unfolding e by simp
qed

text \<open>
  C2. \<open>calculate_match\<close> returns, in the order of the keyword list, a found record for
  every keyword that is not \<open>Missing\<close> and a missing record for every keyword that is. A
  keyword is an \<open>ExactMatch\<close> exactly when its text is a contiguous piece of the cleaned
  resume text; otherwise it is a \<open>SynonymMatch s\<close> exactly when \<open>s\<close> is the first member
  of its synonym list that is such a piece, and that \<open>s\<close> is recorded as
  \<open>matched_synonym\<close>; otherwise it is \<open>Missing\<close>.
\<close>

theorem calculate_match_classification:
  "\<exists>r. calculate_match U resume_text job_keywords = Inr r
     \<and> found_keywords r = List.map_filter (spec_found (clean_text U resume_text)) job_keywords
     \<and> missing_keywords r
         = map entry_of
             (filter (\<lambda>k. spec_classify (clean_text U resume_text) k = Missing) job_keywords)
     \<and> (\<forall>k \<in> set job_keywords.
          (spec_classify (clean_text U resume_text) k = ExactMatch
             \<longleftrightarrow> sublist (keyword k) (clean_text U resume_text))
        \<and> (\<forall>s. spec_classify (clean_text U resume_text) k = SynonymMatch s
             \<longleftrightarrow> \<not> sublist (keyword k) (clean_text U resume_text)
               \<and> (\<exists>pre post. synonyms k = pre @ s # post
                     \<and> sublist s (clean_text U resume_text)
                     \<and> (\<forall>p \<in> set pre. \<not> sublist p (clean_text U resume_text))))
        \<and> (spec_classify (clean_text U resume_text) k = Missing
             \<longleftrightarrow> \<not> sublist (keyword k) (clean_text U resume_text)
               \<and> (\<forall>s \<in> set (synonyms k). \<not> sublist s (clean_text U resume_text))))"
proof -
  let ?rc = "clean_text U resume_text"
  have syn: "spec_classify ?rc k = SynonymMatch s
      \<longleftrightarrow> \<not> sublist (keyword k) ?rc
        \<and> (\<exists>pre post. synonyms k = pre @ s # post \<and> sublist s ?rc
              \<and> (\<forall>p \<in> set pre. \<not> sublist p ?rc))" for k :: kw_info and s
  proof
    assume a: "spec_classify ?rc k = SynonymMatch s"
    then have n: "\<not> sublist (keyword k) ?rc" and e: "\<exists>x \<in> set (synonyms k). sublist x ?rc"
      and s: "s = hd (filter (\<lambda>x. sublist x ?rc) (synonyms k))"
      by (auto simp: spec_classify_def split: if_splits)
    from hd_filter_first [OF e] s n
    show "\<not> sublist (keyword k) ?rc
        \<and> (\<exists>pre post. synonyms k = pre @ s # post \<and> sublist s ?rc
              \<and> (\<forall>p \<in> set pre. \<not> sublist p ?rc))"
      by simp
  next
    assume "\<not> sublist (keyword k) ?rc
        \<and> (\<exists>pre post. synonyms k = pre @ s # post \<and> sublist s ?rc
              \<and> (\<forall>p \<in> set pre. \<not> sublist p ?rc))"
    then obtain pre post where n: "\<not> sublist (keyword k) ?rc"
      and d: "synonyms k = pre @ s # post" and h: "sublist s ?rc"
      and f: "\<forall>p \<in> set pre. \<not> sublist p ?rc"
      by blast
    from f have "filter (\<lambda>x. sublist x ?rc) pre = []" by (simp add: filter_empty_conv)
    with d h have "hd (filter (\<lambda>x. sublist x ?rc) (synonyms k)) = s" by simp
    moreover from d h have "\<exists>x \<in> set (synonyms k). sublist x ?rc" by auto
    ultimately show "spec_classify ?rc k = SynonymMatch s"
      using n by (simp add: spec_classify_def)
  qed
  have ex: "spec_classify ?rc k = ExactMatch \<longleftrightarrow> sublist (keyword k) ?rc" for k :: kw_info
    by (simp add: spec_classify_def)
  have mi: "spec_classify ?rc k = Missing
      \<longleftrightarrow> \<not> sublist (keyword k) ?rc \<and> (\<forall>s \<in> set (synonyms k). \<not> sublist s ?rc)"
    for k :: kw_info
    by (simp add: spec_classify_def)
  show ?thesis
    using syn ex mi by (simp add: calculate_match_tally)
qed

theorem calculate_match_classification_witness:
  "\<exists>r. calculate_match ascii_db (lit ''I know Python and  Coding'') example_keywords = Inr r
     \<and> map keyword (found_keywords r) = [(lit ''python''), (lit ''programming'')]
     \<and> map matched_synonym (found_keywords r) = [None, Some (lit ''coding'')]
     \<and> map keyword (missing_keywords r) = [(lit ''teamwork'')]
     \<and> (\<forall>k \<in> set example_keywords.
          spec_classify (clean_text ascii_db (lit ''I know Python and  Coding'')) k = ExactMatch
            \<longleftrightarrow> sublist (keyword k) (clean_text ascii_db (lit ''I know Python and  Coding'')))"
proof -
  have e: "calculate_match ascii_db (lit ''I know Python and  Coding'') example_keywords =
    Inr \<lparr>found_keywords =
          [\<lparr>keyword = lit ''python'', category = lit ''Technical Skills'', synonyms = [],
             match_type = lit ''exact'', matched_synonym = None\<rparr>,
           \<lparr>keyword = lit ''programming'', category = lit ''Technical Skills'',
             synonyms = [(lit ''scheduling''), (lit ''coding'')],
             match_type = lit ''synonym'', matched_synonym = Some (lit ''coding'')\<rparr>],
         missing_keywords =
           [\<lparr>keyword = lit ''teamwork'', category = lit ''Tools & Technologies'',
              synonyms = [(lit ''cooperation'')]\<rparr>],
         exact_matches = 1, synonym_matches = 1, match_percentage = 7975124340135253 / 140737488355328,
         total_keywords = 3\<rparr>"
    by code_simp
  from calculate_match_classification [of ascii_db "(lit ''I know Python and  Coding'')" example_keywords]
  obtain r where r: "calculate_match ascii_db (lit ''I know Python and  Coding'') example_keywords = Inr r"
    and q: "\<forall>k \<in> set example_keywords.
          spec_classify (clean_text ascii_db (lit ''I know Python and  Coding'')) k = ExactMatch
            \<longleftrightarrow> sublist (keyword k) (clean_text ascii_db (lit ''I know Python and  Coding''))"
    by blast
  from r have v: "map keyword (found_keywords r) = [(lit ''python''), (lit ''programming'')]"
      "map matched_synonym (found_keywords r) = [None, Some (lit ''coding'')]"
      "map keyword (missing_keywords r) = [(lit ''teamwork'')]"
    unfolding e by auto
  from r v q show ?thesis by (intro exI [of _ r] conjI)
qed

section \<open>Properties of generate_improvement_suggestions\<close>

lemma foldl_group_step:
  "foldl group_step [] ms
   = map (\<lambda>c. (c, filter (\<lambda>m. category m = c) ms)) (first_occurrences (map category ms))"
proof -
  have "group_step = (\<lambda>d x. dict_upd (\<lambda>old. (\<lambda>l x. l @ [x]) (case old of None \<Rightarrow> [] | Some v \<Rightarrow> v) x) (category x) d)"
    by (simp add: group_step_def fun_eq_iff)
  then show ?thesis
    using foldl_dict_upd [where g = "\<lambda>l x. l @ [x]" and z = "[]" and key = category and xs = ms]
    by (simp add: foldl_snoc_list)
qed

lemma suggest_step_append: "suggest_step acc item = acc @ suggest_step [] item"
  by (cases item) (simp add: suggest_step_def Let_def)

lemma foldl_suggest_step:
  "foldl suggest_step acc items = acc @ concat (map (suggest_step []) items)"
proof (induction items arbitrary: acc)
  case Nil
  show ?case by simp
next
  case (Cons item items)
  have "foldl suggest_step acc (item # items) = foldl suggest_step (suggest_step acc item) items"
    by simp
  also have "\<dots> = suggest_step acc item @ concat (map (suggest_step []) items)"
    by (rule Cons.IH)
  also have "\<dots> = (acc @ suggest_step [] item) @ concat (map (suggest_step []) items)"
    using suggest_step_append [of acc item] by simp
  finally show ?case by simp
qed

lemma suggest_step_spec:
  "kws \<noteq> [] \<Longrightarrow> suggest_step [] (c, kws) = spec_category_suggestion c (map keyword kws)"
  by (simp add: suggest_step_def spec_category_suggestion_def Let_def take_map)

lemma category_part_refines:
  "foldl suggest_step [] (foldl group_step [] ms) = spec_category_part ms"
proof -
  have "suggest_step [] (c, filter (\<lambda>m. category m = c) ms)
        = spec_category_suggestion c (map keyword (filter (\<lambda>m. category m = c) ms))"
    if "c \<in> set (map category ms)" for c
  proof -
    from that have "filter (\<lambda>m. category m = c) ms \<noteq> []"
      by (auto simp: filter_empty_conv)
    then show ?thesis by (rule suggest_step_spec)
  qed
  then have eq: "map (\<lambda>c. suggest_step [] (c, filter (\<lambda>m. category m = c) ms))
               (first_occurrences (map category ms))
           = map (\<lambda>c. spec_category_suggestion c
                          (map keyword (filter (\<lambda>m. category m = c) ms)))
               (first_occurrences (map category ms))"
    by (intro map_cong) simp_all
  show ?thesis
    by (simp add: foldl_suggest_step foldl_group_step spec_category_part_def comp_def eq)
qed

lemma category_suggestion_not_severity:
  "s \<in> set (spec_category_suggestion c kws) \<Longrightarrow>
     s \<noteq> major_revision \<and> s \<noteq> moderate_improvements \<and> s \<noteq> good_match"
  by (auto simp: spec_category_suggestion_def major_revision_def moderate_improvements_def
      good_match_def lit_Cons code_eq_iff simp del: lit_eq_iff split: if_splits)

text \<open>
  C7. \<open>generate_improvement_suggestions\<close> returns the category suggestions followed by
  exactly one severity suggestion. A category suggestion names at most the first 3 missing
  keywords of \<open>Technical Skills\<close>, at most the first 3 of \<open>Tools & Technologies\<close> and at
  most the first 2 of \<open>Soft Skills\<close>; any other category gives none. The severity is the
  major revision for more than 10 missing keywords, the moderate one for 6 to 10, and the
  good match otherwise. No category suggestion is a severity suggestion, and the result is
  never empty.
\<close>

theorem generate_improvement_suggestions_shape:
  "generate_improvement_suggestions missing found
     = spec_category_part missing @ [spec_severity (length missing)]
   \<and> set (spec_category_part missing)
       \<inter> {major_revision, moderate_improvements, good_match} = {}
   \<and> 1 \<le> length (generate_improvement_suggestions missing found)"
proof -
  have a: "generate_improvement_suggestions missing found
     = spec_category_part missing @ [spec_severity (length missing)]"
    by (simp add: generate_improvement_suggestions_def category_part_refines spec_severity_def
        major_revision_def moderate_improvements_def good_match_def Let_def)
  have b: "set (spec_category_part missing)
       \<inter> {major_revision, moderate_improvements, good_match} = {}"
    using category_suggestion_not_severity by (fastforce simp: spec_category_part_def)
  from a b show ?thesis by simp
qed

theorem generate_improvement_suggestions_shape_witness:
  "generate_improvement_suggestions example_missing []
     = [(lit ''**Highlight soft skills**: Add examples demonstrating teamwork, leadership in your experience section''),
        (lit ''**Add technical skills**: Consider including python in your skills section''),
        (lit ''**Learn tools**: Gain experience with excel through online courses or projects''),
        (lit ''**Moderate improvements**: Focus on adding the top missing keywords to your resume'')]
   \<and> generate_improvement_suggestions [] [] = [good_match]
   \<and> generate_improvement_suggestions (replicate 11 (missing_entry (lit ''salary'') (lit ''Other Skills''))) []
       = [major_revision]"
proof -
  have c1: "spec_category_part example_missing
     = [(lit ''**Highlight soft skills**: Add examples demonstrating teamwork, leadership in your experience section''),
        (lit ''**Add technical skills**: Consider including python in your skills section''),
        (lit ''**Learn tools**: Gain experience with excel through online courses or projects'')]"
    by code_simp
  have s1: "spec_severity (length example_missing)
     = (lit ''**Moderate improvements**: Focus on adding the top missing keywords to your resume'')"
    by code_simp
  have c2: "spec_category_part [] = []" by code_simp
  have s2: "spec_severity (length ([] :: kw_entry list)) = good_match" by code_simp
  have c3: "spec_category_part (replicate 11 (missing_entry (lit ''salary'') (lit ''Other Skills''))) = []"
    by code_simp
  have s3: "spec_severity (length (replicate 11 (missing_entry (lit ''salary'') (lit ''Other Skills''))))
     = major_revision"
    by code_simp
  from generate_improvement_suggestions_shape [of example_missing "[]"]
    generate_improvement_suggestions_shape [of "[]" "[]"]
    generate_improvement_suggestions_shape
      [of "replicate 11 (missing_entry (lit ''salary'') (lit ''Other Skills''))" "[]"]
  show ?thesis unfolding c1 s1 c2 s2 c3 s3 by simp
qed

end
